theory Spec2Isabelle
  imports Complex_Main
begin

section \<open>Exceptions and arrays\<close>

text \<open>
  The Python exceptions that the modelled code can raise. A computation that may raise
  returns \<open>pyerr + 'a\<close>, with \<open>Inl\<close> for the exception.
\<close>

datatype pyerr = ZeroDivisionError | ValueError | IndexError | RuntimeError

text \<open>
  A numpy array is a nested list in C order: a 2-D array is the list of its rows, a 3-D
  array the list of its 2-D slabs. All rows of an array have the same length; an axis of
  length 0 is the empty list, and the axes after it then count as 0 as well.
\<close>

definition ncols :: "'a list list \<Rightarrow> nat" where
  "ncols a = (case a of [] \<Rightarrow> 0 | r # _ \<Rightarrow> length r)"

definition rect :: "nat \<Rightarrow> nat \<Rightarrow> 'a list list \<Rightarrow> bool" where
  "rect r c a \<longleftrightarrow> length a = r \<and> (\<forall>row\<in>set a. length row = c)"

definition shape2 :: "'a list list \<Rightarrow> nat \<times> nat" where
  "shape2 a = (length a, ncols a)"

text \<open>\<open>a[k : len(a) : n]\<close> for a step \<open>n \<ge> 1\<close>: the rows \<open>k\<close>, \<open>k + n\<close>, \<open>k + 2n\<close>, ...\<close>

fun every_nth :: "nat \<Rightarrow> 'a list \<Rightarrow> 'a list" where
  "every_nth n [] = []"
| "every_nth n (x # xs) = x # every_nth n (drop (n - 1) xs)"

definition slice_step :: "nat \<Rightarrow> nat \<Rightarrow> 'a list \<Rightarrow> 'a list" where
  "slice_step k n xs = every_nth n (drop k xs)"

text \<open>
  Assigning a 2-D source of shape \<open>(m, n)\<close> to a 2-D slot of shape \<open>(r, c)\<close>: numpy
  broadcasts the source to the slot. Each source axis has to have the length of the slot's
  axis or length 1 (then its single entry is repeated); otherwise it raises ValueError.
\<close>

definition stretch :: "nat \<Rightarrow> nat \<Rightarrow> 'a list \<Rightarrow> 'a list" where
  "stretch m r xs = (if m = r then xs else replicate r (hd xs))"

definition broadcast_to2 :: "nat \<times> nat \<Rightarrow> nat \<times> nat \<Rightarrow> 'a list list \<Rightarrow> pyerr + 'a list list" where
  "broadcast_to2 src dst a =
     (case (src, dst) of ((m, n), (r, c)) \<Rightarrow>
        if (m = r \<or> m = 1) \<and> (n = c \<or> n = 1)
        then Inr (map (stretch n c) (stretch m r a))
        else Inl ValueError)"

section \<open>get\_images: partitioning the echoes\<close>

text \<open>
  The first loop of \<open>get_images\<close>. \<open>np.empty\<close> allocates the stack without initialising
  it; every slot is assigned before the stack is read, so the model starts from zeros.
  \<open>int(echoes.shape[0]/number_of_images)\<close> raises ZeroDivisionError for no images.
\<close>

fun fill_kspaces :: "nat \<Rightarrow> 'a list list \<Rightarrow> nat list \<Rightarrow> 'a list list list \<Rightarrow> pyerr + 'a list list list" where
  "fill_kspaces number_of_images echoes [] kspaces = Inr kspaces"
| "fill_kspaces number_of_images echoes (kspace_no # rest) kspaces =
     (let src = slice_step kspace_no number_of_images echoes
      in case broadcast_to2 (length src, ncols echoes)
                (length echoes div number_of_images, ncols echoes) src of
           Inl e \<Rightarrow> Inl e
         | Inr v \<Rightarrow> fill_kspaces number_of_images echoes rest (kspaces[kspace_no := v]))"

definition dividing_into_kspaces :: "nat \<Rightarrow> 'a::zero list list \<Rightarrow> pyerr + 'a list list list" where
  "dividing_into_kspaces number_of_images echoes =
     (if number_of_images = 0 then Inl ZeroDivisionError
      else fill_kspaces number_of_images echoes [0..<number_of_images]
             (replicate number_of_images
                (replicate (length echoes div number_of_images) (replicate (ncols echoes) 0))))"

section \<open>get\_images: reconstruction\<close>

text \<open>
  The discrete Fourier transform of numpy, over exact complex numbers:
  \<open>A\<^sub>k = \<Sum>\<^sub>n a\<^sub>n exp(-2\<pi>i k n / N)\<close>. \<open>fft2\<close> transforms the last axis, then the first, and
  raises ValueError for an axis without data points.
\<close>

definition dft :: "complex list \<Rightarrow> complex list" where
  "dft xs = map (\<lambda>k. \<Sum>n\<leftarrow>[0..<length xs].
                       xs ! n * cis (- 2 * pi * real k * real n / real (length xs)))
                [0..<length xs]"

definition np_transpose :: "'a list list \<Rightarrow> 'a list list" where
  "np_transpose a = map (\<lambda>j. map (\<lambda>row. row ! j) a) [0..<ncols a]"

definition dft2 :: "complex list list \<Rightarrow> complex list list" where
  "dft2 a = np_transpose (map dft (np_transpose (map dft a)))"

definition fft2 :: "complex list list \<Rightarrow> pyerr + complex list list" where
  "fft2 a = (if length a = 0 \<or> ncols a = 0 then Inl ValueError else Inr (dft2 a))"

text \<open>\<open>np.roll\<close> along one axis: the entry at \<open>i\<close> moves to \<open>(i + s) mod n\<close>.\<close>

definition roll :: "nat \<Rightarrow> 'a list \<Rightarrow> 'a list" where
  "roll s xs = (if xs = [] then xs
                else drop (length xs - s mod length xs) xs @ take (length xs - s mod length xs) xs)"

definition fftshift :: "'a list list \<Rightarrow> 'a list list" where
  "fftshift a = roll (length a div 2) (map (roll (ncols a div 2)) a)"

text \<open>\<open>np.flip(a, (1,0))\<close> reverses both axes.\<close>

definition flip10 :: "'a list list \<Rightarrow> 'a list list" where
  "flip10 a = rev (map rev a)"

text \<open>
  The second loop. \<open>images\<close> is allocated with the shape of \<open>kspaces\<close>, and
  \<open>images[kspace_no] = abs(ft)\<close> broadcasts the transposed result into a slot of the
  untransposed shape.
\<close>

fun fill_images :: "nat \<times> nat \<Rightarrow> complex list list list \<Rightarrow> nat list \<Rightarrow> real list list list
    \<Rightarrow> pyerr + real list list list" where
  "fill_images slot kspaces [] images = Inr images"
| "fill_images slot kspaces (kspace_no # rest) images =
     (case fft2 (kspaces ! kspace_no) of
        Inl e \<Rightarrow> Inl e
      | Inr ft \<Rightarrow>
          (let ft1 = fftshift ft;
               ft2 = np_transpose (flip10 ft1);
               v = map (map cmod) ft2
           in case broadcast_to2 (shape2 v) slot v of
                Inl e \<Rightarrow> Inl e
              | Inr v' \<Rightarrow> fill_images slot kspaces rest (images[kspace_no := v'])))"

definition get_images :: "nat \<Rightarrow> complex list list \<Rightarrow> pyerr + real list list list" where
  "get_images number_of_images echoes =
     (case dividing_into_kspaces number_of_images echoes of
        Inl e \<Rightarrow> Inl e
      | Inr kspaces \<Rightarrow>
          fill_images (length echoes div number_of_images, ncols echoes) kspaces
            [0..<number_of_images]
            (replicate number_of_images
               (replicate (length echoes div number_of_images) (replicate (ncols echoes) 0))))"

text \<open>
  The reconstruction of one k-space in the words of the specification: Fourier transform,
  zero-frequency shift, flip of both axes, transpose, magnitude.
\<close>

definition reconstruct_spec :: "complex list list \<Rightarrow> real list list" where
  "reconstruct_spec kspace = map (map cmod) (np_transpose (flip10 (fftshift (dft2 kspace))))"

section \<open>reorder\_forT1IR\<close>

text \<open>
  \<open>np.reshape\<close> relabels the flat C-order data of an array with a new shape and raises
  ValueError when the new shape has a different number of elements. \<open>np.transpose\<close>
  with axes \<open>(1, 0, 2, 3)\<close> exchanges the first two axes of a 4-D array.
\<close>

definition shape3 :: "'a list list list \<Rightarrow> nat \<times> nat \<times> nat" where
  "shape3 a = (case a of [] \<Rightarrow> (0, 0, 0) | im # _ \<Rightarrow> (length a, length im, ncols im))"

text \<open>A 3-D array: every slab has the rows and columns that the shape says.\<close>

definition is_array3 :: "'a list list list \<Rightarrow> bool" where
  "is_array3 a \<longleftrightarrow> (case shape3 a of (n, h, w) \<Rightarrow> \<forall>im\<in>set a. rect h w im)"

text \<open>
  \<open>blocks n w xs\<close> cuts flat data into \<open>n\<close> consecutive pieces of length \<open>w\<close>;
  \<open>ravel\<close> is the flat data of an array and \<open>reshape\<close> the array of a given shape
  over flat data.
\<close>

definition blocks :: "nat \<Rightarrow> nat \<Rightarrow> 'a list \<Rightarrow> 'a list list" where
  "blocks n w xs = map (\<lambda>i. take w (drop (i * w) xs)) [0..<n]"

definition ravel3 :: "'a list list list \<Rightarrow> 'a list" where
  "ravel3 a = concat (concat a)"

definition ravel4 :: "'a list list list list \<Rightarrow> 'a list" where
  "ravel4 a = concat (concat (concat a))"

definition reshape3 :: "nat \<times> nat \<times> nat \<Rightarrow> 'a list \<Rightarrow> 'a list list list" where
  "reshape3 shape xs = (case shape of (n, h, w) \<Rightarrow> map (blocks h w) (blocks n (h * w) xs))"

definition reshape4 :: "nat \<times> nat \<times> nat \<times> nat \<Rightarrow> 'a list \<Rightarrow> 'a list list list list" where
  "reshape4 shape xs =
     (case shape of (a, b, h, w) \<Rightarrow> map (reshape3 (b, h, w)) (blocks a (b * h * w) xs))"

definition transpose_1023 :: "nat \<times> nat \<Rightarrow> 'a list list \<Rightarrow> 'a list list" where
  "transpose_1023 ab a = (case ab of (m, n) \<Rightarrow> map (\<lambda>j. map (\<lambda>i. a ! i ! j) [0..<m]) [0..<n])"

text \<open>
  \<open>int(number_of_images/nI)\<close> raises ZeroDivisionError for \<open>nI = 0\<close>. The first
  \<open>np.reshape\<close> raises ValueError unless the 4-D shape has as many elements as the
  stack; the last one restores the shape of the stack.
\<close>

definition reorder_forT1IR :: "'a list list list \<Rightarrow> nat \<Rightarrow> nat \<Rightarrow> pyerr + 'a list list list" where
  "reorder_forT1IR images nI number_of_images =
     (if nI = 0 then Inl ZeroDivisionError
      else case shape3 images of (n0, h, w) \<Rightarrow>
        if nI * (number_of_images div nI) * h * w \<noteq> n0 * h * w then Inl ValueError
        else let images1 = reshape4 (nI, number_of_images div nI, h, w) (ravel3 images);
                 images2 = transpose_1023 (nI, number_of_images div nI) images1
             in Inr (reshape3 (n0, h, w) (ravel4 images2)))"

section \<open>Floating-point values\<close>

text \<open>
  A float64 is a finite value, taken as an exact real (rounding and overflow are not
  modelled), or one of the IEEE specials. Signed zeros are not distinguished: zero stands
  for \<open>+0.0\<close>. numpy arithmetic does not raise on division by zero or on invalid
  operations; it returns \<open>inf\<close> or \<open>nan\<close> (and warns).
\<close>

datatype npfloat = Finite real | PosInf | NegInf | NaN

fun fneg :: "npfloat \<Rightarrow> npfloat" where
  "fneg (Finite x) = Finite (- x)"
| "fneg PosInf = NegInf"
| "fneg NegInf = PosInf"
| "fneg NaN = NaN"

fun fabs :: "npfloat \<Rightarrow> npfloat" where
  "fabs (Finite x) = Finite \<bar>x\<bar>"
| "fabs PosInf = PosInf"
| "fabs NegInf = PosInf"
| "fabs NaN = NaN"

fun fexp :: "npfloat \<Rightarrow> npfloat" where
  "fexp (Finite x) = Finite (exp x)"
| "fexp PosInf = PosInf"
| "fexp NegInf = Finite 0"
| "fexp NaN = NaN"

fun fadd :: "npfloat \<Rightarrow> npfloat \<Rightarrow> npfloat" where
  "fadd NaN y = NaN"
| "fadd x NaN = NaN"
| "fadd (Finite x) (Finite y) = Finite (x + y)"
| "fadd PosInf NegInf = NaN"
| "fadd NegInf PosInf = NaN"
| "fadd PosInf y = PosInf"
| "fadd NegInf y = NegInf"
| "fadd (Finite x) y = y"

definition fsub :: "npfloat \<Rightarrow> npfloat \<Rightarrow> npfloat" where
  "fsub x y = fadd x (fneg y)"

text \<open>An infinity with the sign of a non-zero real, and \<open>nan\<close> for zero.\<close>

definition inf_signed :: "real \<Rightarrow> npfloat" where
  "inf_signed s = (if s = 0 then NaN else if 0 < s then PosInf else NegInf)"

fun fmul :: "npfloat \<Rightarrow> npfloat \<Rightarrow> npfloat" where
  "fmul NaN y = NaN"
| "fmul x NaN = NaN"
| "fmul (Finite x) (Finite y) = Finite (x * y)"
| "fmul (Finite x) PosInf = inf_signed x"
| "fmul (Finite x) NegInf = inf_signed (- x)"
| "fmul PosInf (Finite y) = inf_signed y"
| "fmul NegInf (Finite y) = inf_signed (- y)"
| "fmul PosInf PosInf = PosInf"
| "fmul NegInf NegInf = PosInf"
| "fmul PosInf NegInf = NegInf"
| "fmul NegInf PosInf = NegInf"

fun fdiv :: "npfloat \<Rightarrow> npfloat \<Rightarrow> npfloat" where
  "fdiv NaN y = NaN"
| "fdiv x NaN = NaN"
| "fdiv (Finite x) (Finite y) = (if y = 0 then inf_signed x else Finite (x / y))"
| "fdiv (Finite x) y = Finite 0"
| "fdiv PosInf (Finite y) = (if 0 \<le> y then PosInf else NegInf)"
| "fdiv NegInf (Finite y) = (if 0 \<le> y then NegInf else PosInf)"
| "fdiv x y = NaN"

text \<open>\<open>max\<close> of numpy: \<open>nan\<close> if an operand is \<open>nan\<close>.\<close>

fun fless :: "npfloat \<Rightarrow> npfloat \<Rightarrow> bool" where
  "fless (Finite x) (Finite y) = (x < y)"
| "fless NegInf PosInf = True"
| "fless NegInf (Finite y) = True"
| "fless (Finite x) PosInf = True"
| "fless x y = False"

definition fmax :: "npfloat \<Rightarrow> npfloat \<Rightarrow> npfloat" where
  "fmax x y = (if x = NaN \<or> y = NaN then NaN else if fless x y then y else x)"

text \<open>\<open>a.max()\<close> raises ValueError for an array without elements.\<close>

definition amax :: "npfloat list \<Rightarrow> pyerr + npfloat" where
  "amax xs = (case xs of [] \<Rightarrow> Inl ValueError | x # rest \<Rightarrow> Inr (foldl fmax x rest))"

text \<open>
  An elementwise operation of two 2-D arrays broadcasts them to a common shape: along
  each axis the lengths have to agree unless one of them is 1.
\<close>

definition broadcast2 :: "('a \<Rightarrow> 'a \<Rightarrow> 'a) \<Rightarrow> 'a list list \<Rightarrow> 'a list list \<Rightarrow> pyerr + 'a list list" where
  "broadcast2 f a b =
     (case (shape2 a, shape2 b) of ((ra, ca), (rb, cb)) \<Rightarrow>
        if (ra = rb \<or> ra = 1 \<or> rb = 1) \<and> (ca = cb \<or> ca = 1 \<or> cb = 1)
        then let r = (if ra = 1 then rb else ra); c = (if ca = 1 then cb else ca)
             in Inr (map2 (map2 f) (map (stretch ca c) (stretch ra r a))
                                   (map (stretch cb c) (stretch rb r b)))
        else Inl ValueError)"

section \<open>The relaxation models\<close>

text \<open>
  \<open>function == T1_function\<close> compares function objects; the model passes a tag.
  The two functions are modelled as \<open>theoret_MRI\<close> calls them: \<open>x\<close> and \<open>a\<close> are
  scalars, the three parameters are 2-D maps. \<open>x\<close> is the value of \<open>np.array(x)\<close> in
  float arithmetic.
\<close>

datatype model = T1 | T2

definition T1_function :: "npfloat \<Rightarrow> npfloat list list \<Rightarrow> npfloat list list \<Rightarrow> npfloat list list
    \<Rightarrow> npfloat \<Rightarrow> pyerr + npfloat list list" where
  "T1_function x T1map Mo C a =
     (case broadcast2 fmul Mo
             (map (map (\<lambda>t. fsub (Finite 1) (fmul a (fexp (fdiv (fneg x) t))))) T1map) of
        Inl e \<Rightarrow> Inl e
      | Inr p \<Rightarrow> (case broadcast2 fadd p C of
                    Inl e \<Rightarrow> Inl e
                  | Inr y \<Rightarrow> Inr (map (map fabs) y)))"

definition T2_function :: "npfloat \<Rightarrow> npfloat list list \<Rightarrow> npfloat list list \<Rightarrow> npfloat list list
    \<Rightarrow> pyerr + npfloat list list" where
  "T2_function x T2map Mo C =
     (case broadcast2 fmul Mo (map (map (\<lambda>t. fexp (fdiv (fneg x) t))) T2map) of
        Inl e \<Rightarrow> Inl e
      | Inr p \<Rightarrow> broadcast2 fadd p C)"

section \<open>The store\<close>

text \<open>
  numpy arrays are mutable objects that several names can refer to. The store holds the
  3-D arrays (image stacks) and the 2-D arrays (maps and images); a reference is an index
  into its list, and a new array is appended. \<open>files\<close> lists the calls of
  \<open>plt.imsave\<close> since the output folder was created, oldest first, each with the file
  name and the pixel values written.

  A statement that may raise returns the store together with \<open>Some\<close> exception or
  \<open>None\<close>.
\<close>

record store =
  arrays3 :: "npfloat list list list list"
  arrays2 :: "npfloat list list list"
  files :: "(string \<times> npfloat list list) list"

fun for_each :: "('i \<Rightarrow> 's \<Rightarrow> 's \<times> pyerr option) \<Rightarrow> 'i list \<Rightarrow> 's \<Rightarrow> 's \<times> pyerr option" where
  "for_each body [] s = (s, None)"
| "for_each body (i # rest) s =
     (case body i s of
        (s', Some e) \<Rightarrow> (s', Some e)
      | (s', None) \<Rightarrow> for_each body rest s')"

section \<open>theoret\_MRI\<close>

text \<open>
  A requested time is a Python \<open>int\<close> or \<open>float\<close>. The f-string formats it with
  \<open>str\<close>: the decimal digits of an \<open>int\<close>, and for a \<open>float\<close> the shortest
  representation that Python chooses, which is a parameter \<open>float_str\<close> of the model.
  In arithmetic with a float array the time is a float; for an \<open>int\<close> this is its value
  when its magnitude is below \<open>2^63\<close> (beyond that \<open>np.array(x)\<close> is no int64 array,
  and the model does not cover it).
\<close>

datatype pynum = PyInt int | PyFloat npfloat

definition digit :: "nat \<Rightarrow> char" where
  "digit d = ''0123456789'' ! d"

fun str_nat :: "nat \<Rightarrow> string" where
  "str_nat n = (if n < 10 then [digit n] else str_nat (n div 10) @ [digit (n mod 10)])"

declare str_nat.simps [simp del]

definition str_int :: "int \<Rightarrow> string" where
  "str_int i = (if i < 0 then CHR ''-'' # str_nat (nat (- i)) else str_nat (nat i))"

definition str_num :: "(npfloat \<Rightarrow> string) \<Rightarrow> pynum \<Rightarrow> string" where
  "str_num float_str t = (case t of PyInt i \<Rightarrow> str_int i | PyFloat x \<Rightarrow> float_str x)"

definition as_float :: "pynum \<Rightarrow> npfloat" where
  "as_float t = (case t of PyInt i \<Rightarrow> Finite (real_of_int i) | PyFloat x \<Rightarrow> x)"

definition int64_range :: "pynum \<Rightarrow> bool" where
  "int64_range t = (case t of PyInt i \<Rightarrow> - (2 ^ 63) < i \<and> i < 2 ^ 63 | PyFloat x \<Rightarrow> True)"

text \<open>The file name for run index \<open>j\<close>, the label and the formatted time.\<close>

definition fname :: "nat \<Rightarrow> string \<Rightarrow> string \<Rightarrow> string" where
  "fname j txt t_str =
     ''Theoretical_MRI/slice_'' @ str_nat (j + 1) @ ''_'' @ txt @ ''_'' @ t_str @ ''ms.png''"

text \<open>
  The body of the two loops. The local state is the store and the list \<open>TheoretImgs\<close>
  of references. \<open>T_maps[j]\<close> and \<open>Cmaps[j]\<close> raise IndexError beyond the end of their
  lists. The model function returns a new array, to which \<open>SI_image\<close> refers; the
  reference is appended to \<open>TheoretImgs\<close>, and \<open>SI_image *= 255.0/SI_image.max()\<close>
  then multiplies that array in place. \<open>plt.imsave\<close> is taken to accept every array.
\<close>

definition synth_step :: "(npfloat \<Rightarrow> string) \<Rightarrow> model \<Rightarrow> pynum list \<Rightarrow> nat list \<Rightarrow> nat list
    \<Rightarrow> nat list \<Rightarrow> string \<Rightarrow> nat \<Rightarrow> nat \<Rightarrow> store \<times> nat list
    \<Rightarrow> (store \<times> nat list) \<times> pyerr option" where
  "synth_step float_str function T_wish T_maps Momaps Cmaps txt i j st =
     (case st of (s, TheoretImgs) \<Rightarrow>
        if length T_maps \<le> j \<or> length Cmaps \<le> j then (st, Some IndexError)
        else
          case (if function = T1
                then T1_function (as_float (T_wish ! i)) (arrays2 s ! (T_maps ! j))
                       (arrays2 s ! (Momaps ! j)) (arrays2 s ! (Cmaps ! j)) (Finite 2)
                else T2_function (as_float (T_wish ! i)) (arrays2 s ! (T_maps ! j))
                       (arrays2 s ! (Momaps ! j)) (arrays2 s ! (Cmaps ! j))) of
            Inl e \<Rightarrow> (st, Some e)
          | Inr y \<Rightarrow>
              let SI_image = length (arrays2 s);
                  s1 = s\<lparr>arrays2 := arrays2 s @ [y]\<rparr>;
                  TheoretImgs1 = TheoretImgs @ [SI_image]
              in case amax (concat (arrays2 s1 ! SI_image)) of
                   Inl e \<Rightarrow> ((s1, TheoretImgs1), Some e)
                 | Inr mx \<Rightarrow>
                     let s2 = s1\<lparr>arrays2 := (arrays2 s1)
                                [SI_image := map (map (\<lambda>v. fmul v (fdiv (Finite 255) mx)))
                                               (arrays2 s1 ! SI_image)]\<rparr>;
                         s3 = s2\<lparr>files := files s2 @
                                [(fname j txt (str_num float_str (T_wish ! i)),
                                  arrays2 s2 ! SI_image)]\<rparr>
                     in ((s3, TheoretImgs1), None))"

text \<open>
  The value of one theoretical image in the words of the specification: the model at the
  requested time over the map triple, with inversion efficiency 2 for T1; and the rescaling
  by 255 over the maximum that precedes persistence.
\<close>

definition model_image :: "model \<Rightarrow> pynum \<Rightarrow> npfloat list list \<Rightarrow> npfloat list list
    \<Rightarrow> npfloat list list \<Rightarrow> pyerr + npfloat list list" where
  "model_image function t Tmap Momap Cmap =
     (if function = T1 then T1_function (as_float t) Tmap Momap Cmap (Finite 2)
      else T2_function (as_float t) Tmap Momap Cmap)"

definition rescale :: "npfloat list list \<Rightarrow> npfloat \<Rightarrow> npfloat list list" where
  "rescale y mx = map (map (\<lambda>v. fmul v (fdiv (Finite 255) mx))) y"

text \<open>The pixel values that one pass of the loop body leaves in the new array.\<close>

definition stored_image :: "model \<Rightarrow> pynum \<Rightarrow> npfloat list list \<Rightarrow> npfloat list list
    \<Rightarrow> npfloat list list \<Rightarrow> npfloat list list" where
  "stored_image function t Tmap Momap Cmap =
     (case model_image function t Tmap Momap Cmap of
        Inl e \<Rightarrow> []
      | Inr y \<Rightarrow> (case amax (concat y) of Inl e \<Rightarrow> y | Inr mx \<Rightarrow> rescale y mx))"

definition loop_image :: "model \<Rightarrow> pynum list \<Rightarrow> nat list \<Rightarrow> nat list \<Rightarrow> nat list
    \<Rightarrow> npfloat list list list \<Rightarrow> nat \<Rightarrow> nat \<Rightarrow> npfloat list list" where
  "loop_image function T_wish T_maps Momaps Cmaps h i j =
     stored_image function (T_wish ! i) (h ! (T_maps ! j)) (h ! (Momaps ! j)) (h ! (Cmaps ! j))"

text \<open>
  \<open>shutil.rmtree\<close> and \<open>os.makedirs\<close> leave an empty output folder. The function
  returns the list of references; the caller reads the images through the final store.
\<close>

definition theoret_MRI :: "(npfloat \<Rightarrow> string) \<Rightarrow> model \<Rightarrow> pynum list \<Rightarrow> nat list \<Rightarrow> nat list
    \<Rightarrow> nat list \<Rightarrow> store \<Rightarrow> store \<times> (pyerr + nat list)" where
  "theoret_MRI float_str function T_wish T_maps Momaps Cmaps s =
     (let txt = (if function = T1 then ''TI'' else ''TE'');
          s0 = s\<lparr>files := []\<rparr>
      in case for_each (\<lambda>i. for_each (synth_step float_str function T_wish T_maps Momaps Cmaps txt i)
                                [0..<length Momaps])
                [0..<length T_wish] (s0, []) of
           ((s', TheoretImgs), Some e) \<Rightarrow> (s', Inl e)
         | ((s', TheoretImgs), None) \<Rightarrow> (s', Inr TheoretImgs))"

section \<open>calculate\_maps\<close>

text \<open>
  \<open>curve_fit\<close> of scipy is not part of the repository. It is a parameter of the model,
  called with the model function, the x data, the y data, the bounds and \<open>maxfev\<close>; it
  returns the fitted parameters or raises. RuntimeError is what it raises when the
  least-squares solver has not converged within the budget. It does not write to its
  arguments.
\<close>

type_synonym curve_fit =
  "model \<Rightarrow> npfloat list \<Rightarrow> npfloat list \<Rightarrow> npfloat list \<times> npfloat list \<Rightarrow> nat
     \<Rightarrow> pyerr + npfloat list"

definition bounds :: "model \<Rightarrow> npfloat \<Rightarrow> npfloat list \<times> npfloat list" where
  "bounds function pmax =
     (if function = T1
      then ([Finite 0.001, fmul pmax (Finite 0.9),
             fneg (fadd (fdiv pmax (Finite 100)) (Finite 1)), Finite 1.85],
            [Finite 7000, fadd (fmul (Finite 2) pmax) (Finite 1),
             fadd (fdiv pmax (Finite 100)) (Finite 1), Finite 2.05])
      else ([Finite 0.001, fmul pmax (Finite 0.9),
             fneg (fadd (fdiv pmax (Finite 100)) (Finite 1))],
            [Finite 4000, fadd (fmul (Finite 2) pmax) (Finite 1),
             fadd (fdiv pmax (Finite 100)) (Finite 1)]))"

text \<open>
  \<open>task(j)\<close> for row \<open>k\<close> of the run \<open>slice1\<close>. \<open>points\<close> is a view of the run;
  \<open>points.max()\<close> raises ValueError without samples.
\<close>

definition task :: "curve_fit \<Rightarrow> model \<Rightarrow> npfloat list \<Rightarrow> npfloat list list list \<Rightarrow> nat \<Rightarrow> nat
    \<Rightarrow> pyerr + npfloat list" where
  "task cf function T_train slice1 k j =
     (let points = map (\<lambda>im. im ! k ! j) slice1
      in case amax points of
           Inl e \<Rightarrow> Inl e
         | Inr pmax \<Rightarrow>
             (case cf function T_train points (bounds function pmax) 1000 of
                Inr parameters \<Rightarrow> Inr parameters
              | Inl e \<Rightarrow>
                  if e = RuntimeError
                  then Inr (if function = T1
                            then [Finite 0.000001, pmax, Finite 0, Finite 2]
                            else [Finite 0.000001, pmax, Finite 0])
                  else Inl e))"

text \<open>
  \<open>joblib.Parallel\<close> returns the results in the order of the tasks and raises again in
  the caller what a task has raised; the model takes the first such task.
\<close>

fun gather :: "(pyerr + 'a) list \<Rightarrow> pyerr + 'a list" where
  "gather [] = Inr []"
| "gather (r # rs) =
     (case r of
        Inl e \<Rightarrow> Inl e
      | Inr v \<Rightarrow> (case gather rs of Inl e \<Rightarrow> Inl e | Inr vs \<Rightarrow> Inr (v # vs)))"

text \<open>
  \<open>result[:, c]\<close> of \<open>result = np.array(result)\<close>, for parameter vectors of one length:
  IndexError if the array has no second axis (no task) or no column \<open>c\<close>.
\<close>

definition column :: "nat \<Rightarrow> npfloat list list \<Rightarrow> pyerr + npfloat list" where
  "column c result =
     (if result = [] \<or> ncols result \<le> c then Inl IndexError
      else Inr (map (\<lambda>p. p ! c) result))"

fun fit_rows :: "curve_fit \<Rightarrow> model \<Rightarrow> npfloat list \<Rightarrow> npfloat list list list \<Rightarrow> nat \<Rightarrow> nat list
    \<Rightarrow> npfloat list list \<times> npfloat list list \<times> npfloat list list
    \<Rightarrow> pyerr + npfloat list list \<times> npfloat list list \<times> npfloat list list" where
  "fit_rows cf function T_train slice1 w [] acc = Inr acc"
| "fit_rows cf function T_train slice1 w (k # ks) acc =
     (case gather (map (task cf function T_train slice1 k) [0..<w]) of
        Inl e \<Rightarrow> Inl e
      | Inr result \<Rightarrow>
          (case column 0 result of
             Inl e \<Rightarrow> Inl e
           | Inr c0 \<Rightarrow>
               (case column 1 result of
                  Inl e \<Rightarrow> Inl e
                | Inr c1 \<Rightarrow>
                    (case column 2 result of
                       Inl e \<Rightarrow> Inl e
                     | Inr c2 \<Rightarrow>
                         (case acc of (T_list, Molist, Clist) \<Rightarrow>
                            fit_rows cf function T_train slice1 w ks
                              (T_list @ [c0], Molist @ [c1], Clist @ [c2]))))))"

text \<open>
  One pass of the loop over the runs. \<open>slice1 = images[a:b]\<close> is a view of the stack
  in the store. The three maps of the run are new arrays; their references are appended to
  \<open>T_maps\<close>, \<open>Momaps\<close> and \<open>Cmaps\<close>.
\<close>

definition maps_step :: "curve_fit \<Rightarrow> model \<Rightarrow> npfloat list \<Rightarrow> nat \<Rightarrow> nat
    \<Rightarrow> store \<times> nat list \<times> nat list \<times> nat list
    \<Rightarrow> (store \<times> nat list \<times> nat list \<times> nat list) \<times> pyerr option" where
  "maps_step cf function T_train images i st =
     (case st of (s, T_maps, Momaps, Cmaps) \<Rightarrow>
        let nE_nI = length T_train;
            slice1 = take (nE_nI * (i + 1) - nE_nI * i) (drop (nE_nI * i) (arrays3 s ! images))
        in case shape3 slice1 of (n, h, w) \<Rightarrow>
             (case fit_rows cf function T_train slice1 w [0..<h] ([], [], []) of
                Inl e \<Rightarrow> (st, Some e)
              | Inr (T_list, Molist, Clist) \<Rightarrow>
                  ((s\<lparr>arrays2 := arrays2 s @ [T_list, Molist, Clist]\<rparr>,
                    T_maps @ [length (arrays2 s)],
                    Momaps @ [length (arrays2 s) + 1],
                    Cmaps @ [length (arrays2 s) + 2]), None)))"

definition calculate_maps :: "curve_fit \<Rightarrow> nat \<Rightarrow> npfloat list \<Rightarrow> model \<Rightarrow> store
    \<Rightarrow> store \<times> (pyerr + nat list \<times> nat list \<times> nat list)" where
  "calculate_maps cf images T_train function s =
     (if length T_train = 0 then (s, Inl ZeroDivisionError)
      else case for_each (maps_step cf function T_train images)
                  [0..<length (arrays3 s ! images) div length T_train] (s, [], [], []) of
             ((s', maps), Some e) \<Rightarrow> (s', Inl e)
           | ((s', maps), None) \<Rightarrow> (s', Inr maps))"

text \<open>The arrays of \<open>s\<close> are still in \<open>s'\<close>, at the same references and unchanged.\<close>

definition kept :: "store \<Rightarrow> store \<Rightarrow> bool" where
  "kept s s' \<longleftrightarrow> arrays3 s' = arrays3 s \<and> take (length (arrays2 s)) (arrays2 s') = arrays2 s"

section \<open>Definitions for the statements\<close>

text \<open>
  The bounds policy and the fallback parameters in the words of the specification, for a
  pixel with sample maximum \<open>m\<close>.
\<close>

definition bounds_spec :: "model \<Rightarrow> npfloat \<Rightarrow> npfloat list \<times> npfloat list" where
  "bounds_spec function m =
     (case function of
        T1 \<Rightarrow> ([Finite 0.001, fmul (Finite 0.9) m,
                 fneg (fadd (fdiv m (Finite 100)) (Finite 1)), Finite 1.85],
                [Finite 7000, fadd (fmul (Finite 2) m) (Finite 1),
                 fadd (fdiv m (Finite 100)) (Finite 1), Finite 2.05])
      | T2 \<Rightarrow> ([Finite 0.001, fmul (Finite 0.9) m,
                 fneg (fadd (fdiv m (Finite 100)) (Finite 1))],
                [Finite 4000, fadd (fmul (Finite 2) m) (Finite 1),
                 fadd (fdiv m (Finite 100)) (Finite 1)]))"

definition sentinel :: "model \<Rightarrow> npfloat \<Rightarrow> npfloat list" where
  "sentinel function m =
     (case function of
        T1 \<Rightarrow> [Finite 0.000001, m, Finite 0, Finite 2]
      | T2 \<Rightarrow> [Finite 0.000001, m, Finite 0])"

text \<open>
  The sample maximum of a pixel in the words of the specification: one of the samples,
  with no sample above it; \<open>nan\<close> when a sample is \<open>nan\<close>.
\<close>

definition is_sample_max :: "npfloat list \<Rightarrow> npfloat \<Rightarrow> bool" where
  "is_sample_max points m \<longleftrightarrow>
     (if NaN \<in> set points then m = NaN
      else m \<in> set points \<and> (\<forall>x\<in>set points. \<not> fless m x))"

text \<open>
  The regression of one pixel, with samples \<open>points\<close> and sample maximum \<open>m\<close>, ends
  regularly when the solver, called on these samples with the bounds of the specification
  and the budget of 1000 evaluations, returns one value per parameter of the model or
  raises RuntimeError (no convergence within the budget).
\<close>

definition npar :: "model \<Rightarrow> nat" where
  "npar function = (case function of T1 \<Rightarrow> 4 | T2 \<Rightarrow> 3)"

definition regular_fit :: "curve_fit \<Rightarrow> model \<Rightarrow> npfloat list \<Rightarrow> npfloat list \<Rightarrow> npfloat
    \<Rightarrow> bool" where
  "regular_fit cf function T_train points m =
     (case cf function T_train points (bounds_spec function m) 1000 of
        Inl e \<Rightarrow> e = RuntimeError
      | Inr p \<Rightarrow> length p = npar function)"

text \<open>
  Run \<open>i\<close> of a stack, \<open>images[nE_nI*i : nE_nI*(i+1)]\<close>, and the map of parameter
  \<open>c\<close> that the tasks of a run give.
\<close>

definition run_slice :: "'a list \<Rightarrow> nat \<Rightarrow> nat \<Rightarrow> 'a list" where
  "run_slice stack nE_nI i = take nE_nI (drop (nE_nI * i) stack)"

definition param_map :: "curve_fit \<Rightarrow> model \<Rightarrow> npfloat list \<Rightarrow> npfloat list list list \<Rightarrow> nat
    \<Rightarrow> nat \<Rightarrow> nat \<Rightarrow> npfloat list list" where
  "param_map cf function T_train slice1 c h w =
     map (\<lambda>k. map (\<lambda>j. projr (task cf function T_train slice1 k j) ! c) [0..<w]) [0..<h]"

section \<open>Properties of the partitioning\<close>

lemma length_every_nth: "0 < n \<Longrightarrow> length (every_nth n xs) = (length xs + n - 1) div n"
proof (induction n xs rule: every_nth.induct)
  case (1 n) then show ?case by simp
next
  case (2 n x xs)
  show ?case
  proof (cases "length xs < n - 1")
    case True
    with 2 show ?thesis by simp
  next
    case False
    then have "length xs - (n - 1) + n = length xs + 1" using 2 by simp
    with 2 False show ?thesis
      by (simp add: div_add_self2) 
  qed
qed

lemma nth_every_nth: "0 < n \<Longrightarrow> n * r < length xs \<Longrightarrow> every_nth n xs ! r = xs ! (n * r)"
proof (induction n xs arbitrary: r rule: every_nth.induct)
  case (1 n) then show ?case by simp
next
  case (2 n x xs)
  show ?case
  proof (cases r)
    case 0 then show ?thesis by simp
  next
    case (Suc r')
    have b: "n * r' < length (drop (n - 1) xs)" using 2 Suc by simp
    with 2 have "every_nth n (drop (n - 1) xs) ! r' = drop (n - 1) xs ! (n * r')" by simp
    also have "\<dots> = xs ! (n - 1 + n * r')" using b by simp
    also have "\<dots> = (x # xs) ! (n * r)" using Suc 2 by (simp add: nth_Cons')
    finally show ?thesis using Suc by simp
  qed
qed

lemma length_slice_step:
  "0 < n \<Longrightarrow> length (slice_step k n xs) = (length xs - k + n - 1) div n"
  by (simp add: slice_step_def length_every_nth)

lemma nth_slice_step:
  "0 < n \<Longrightarrow> k + n * r < length xs \<Longrightarrow> slice_step k n xs ! r = xs ! (k + n * r)"
  by (simp add: slice_step_def nth_every_nth)

lemma length_slice_step_dvd:
  assumes "0 < n" "n dvd length xs" "k < n"
  shows "length (slice_step k n xs) = length xs div n"
proof -
  from assms(2) obtain q where q: "length xs = n * q" by (auto simp: dvd_def)
  show ?thesis
  proof (cases q)
    case 0
    with q assms show ?thesis by (simp add: length_slice_step)
  next
    case (Suc q')
    have "n * q - k + n - 1 = n * q + (n - 1 - k)"
      using assms Suc by (simp add: algebra_simps)
    moreover have "(n * q + (n - 1 - k)) div n = q + (n - 1 - k) div n"
      using assms by (intro div_mult_self4) simp
    moreover have "(n - 1 - k) div n = 0"
      using assms by simp
    ultimately show ?thesis using q assms by (simp add: length_slice_step)
  qed
qed

lemma stretch_same [simp]: "stretch m m xs = xs"
  by (simp add: stretch_def)

lemma broadcast_to2_same [simp]: "broadcast_to2 (m, n) (m, n) a = Inr a"
  by (simp add: broadcast_to2_def map_idI)

lemma fill_kspaces_fold:
  "\<forall>k\<in>set ks. length (slice_step k n e) = length e div n \<Longrightarrow>
   fill_kspaces n e ks acc = Inr (fold (\<lambda>k a. a[k := slice_step k n e]) ks acc)"
  by (induction ks arbitrary: acc) simp_all

lemma length_fold_upd [simp]: "length (fold (\<lambda>k a. a[k := f k]) ks acc) = length acc"
  by (induction ks arbitrary: acc) simp_all

lemma nth_fold_upd:
  "n \<le> length acc \<Longrightarrow> k < n \<Longrightarrow> fold (\<lambda>k a. a[k := f k]) [0..<n] acc ! k = f k"
proof (induction n)
  case 0 then show ?case by simp
next
  case (Suc n)
  then show ?case by (cases "k = n") (simp_all add: nth_list_update)
qed

lemma dividing_into_kspaces_dvd:
  assumes "0 < number_of_images"
    and "number_of_images dvd length echoes"
    and "\<forall>row\<in>set echoes. length row = rowWidth"
  shows "\<exists>kspaces. dividing_into_kspaces number_of_images echoes = Inr kspaces
           \<and> length kspaces = number_of_images
           \<and> (\<forall>k<number_of_images.
                 length (kspaces ! k) = length echoes div number_of_images
               \<and> (\<forall>row\<in>set (kspaces ! k). length row = rowWidth)
               \<and> (\<forall>n<length echoes div number_of_images.
                     kspaces ! k ! n = echoes ! (k + number_of_images * n)))"
proof -
  let ?n = number_of_images
  let ?q = "length echoes div ?n"
  let ?f = "\<lambda>k. slice_step k ?n echoes"
  let ?init = "replicate ?n (replicate ?q (replicate (ncols echoes) (0::'a)))"
  let ?ks = "fold (\<lambda>k a. a[k := ?f k]) [0..<?n] ?init"
  have len: "\<forall>k\<in>set [0..<?n]. length (?f k) = ?q"
    using assms by (simp add: length_slice_step_dvd)
  have run: "dividing_into_kspaces ?n echoes = Inr ?ks"
    using assms(1) fill_kspaces_fold [OF len] by (simp add: dividing_into_kspaces_def)
  have slot: "?ks ! k = ?f k" if "k < ?n" for k
    using that by (simp add: nth_fold_upd)
  have rows: "?f k ! n = echoes ! (k + ?n * n)" if "k < ?n" "n < ?q" for k n
  proof -
    from assms(2) have "length echoes = ?n * ?q" by simp
    moreover have "k + ?n * n < ?n * ?q"
    proof -
      have "k + ?n * n < ?n + ?n * n" using that by simp
      also have "\<dots> = ?n * Suc n" by simp
      also have "\<dots> \<le> ?n * ?q" using that by (intro mult_le_mono2) simp
      finally show ?thesis .
    qed
    ultimately show ?thesis using assms(1) by (simp add: nth_slice_step)
  qed
  have width: "\<forall>row\<in>set (?f k). length row = rowWidth" for k
  proof -
    have "set (every_nth n xs) \<subseteq> set xs" for n and xs :: "'a list list"
      by (induction n xs rule: every_nth.induct) (auto dest: in_set_dropD)
    then have "set (?f k) \<subseteq> set echoes"
      unfolding slice_step_def using set_drop_subset by fastforce
    with assms(3) show ?thesis by blast
  qed
  show ?thesis
    using run slot rows width len by (intro exI [of _ ?ks]) simp
qed

text \<open>
  Claim C1. When the image count is positive and divides the number of echo rows, the
  partitioning returns one k-space per image, each with \<open>len(echoes)/number_of_images\<close>
  rows of the echoes' width, and row \<open>n\<close> of k-space \<open>k\<close> is echo row
  \<open>k + number_of_images * n\<close>.
\<close>

theorem partition_deinterleaves:
  assumes "0 < number_of_images"
    and "number_of_images dvd length echoes"
    and "\<forall>row\<in>set echoes. length row = rowWidth"
  shows "\<exists>kspaces. dividing_into_kspaces number_of_images echoes = Inr kspaces
           \<and> length kspaces = number_of_images
           \<and> (\<forall>k<number_of_images.
                 length (kspaces ! k) = length echoes div number_of_images
               \<and> (\<forall>row\<in>set (kspaces ! k). length row = rowWidth)
               \<and> (\<forall>n<length echoes div number_of_images.
                     kspaces ! k ! n = echoes ! (k + number_of_images * n)))"
  using assms by (rule dividing_into_kspaces_dvd)

theorem partition_deinterleaves_witness:
  "\<exists>kspaces. dividing_into_kspaces 2 [[1, 2], [3, 4], [5, 6], [7, 8 :: int]] = Inr kspaces
      \<and> length kspaces = 2 \<and> kspaces ! 1 ! 1 = [7, 8]"
proof -
  let ?E = "[[1, 2], [3, 4], [5, 6], [7, 8 :: int]]"
  have h1: "(0::nat) < 2" and h2: "2 dvd length ?E"
    and h3: "\<forall>row\<in>set ?E. length row = 2" by simp_all
  from partition_deinterleaves [OF h1 h2 h3] obtain kspaces where
    k: "dividing_into_kspaces 2 ?E = Inr kspaces" "length kspaces = 2"
      "\<forall>k<2. \<forall>n<length ?E div 2. kspaces ! k ! n = ?E ! (k + 2 * n)"
    by blast
  from k(3) have "kspaces ! 1 ! 1 = ?E ! (1 + 2 * 1)" by simp
  with k(1,2) show ?thesis by simp
qed

lemma fill_kspaces_fold_gen:
  "\<forall>k\<in>set ks. broadcast_to2 (length (slice_step k n e), ncols e) (length e div n, ncols e)
        (slice_step k n e) = Inr (g k) \<Longrightarrow>
   fill_kspaces n e ks acc = Inr (fold (\<lambda>k a. a[k := g k]) ks acc)"
  by (induction ks arbitrary: acc) simp_all

lemma fold_upd_replicate:
  "fold (\<lambda>k a. a[k := v]) ks (replicate n v) = replicate n v"
proof -
  have "(replicate n v)[k := v] = replicate n v" for k
    by (cases "k < n") (auto simp: list_eq_iff_nth_eq nth_list_update)
  then show ?thesis by (induction ks) simp_all
qed

lemma few_rows_empty_kspaces:
  assumes "length echoes < n"
  shows "dividing_into_kspaces n echoes = Inr (replicate n [])"
proof -
  have q: "length echoes div n = 0" using assms by simp
  have "broadcast_to2 (length (slice_step k n echoes), ncols echoes) (0, ncols echoes)
          (slice_step k n echoes) = Inr []" for k
  proof -
    have "length (slice_step k n echoes) = (length echoes - k + n - 1) div n"
      using assms by (simp add: length_slice_step)
    also have "\<dots> < 2"
      using assms by (intro less_mult_imp_div_less) simp
    finally have "length (slice_step k n echoes) = 0 \<or> length (slice_step k n echoes) = 1"
      by linarith
    then show ?thesis by (auto simp: broadcast_to2_def stretch_def)
  qed
  then have "fill_kspaces n echoes [0..<n] (replicate n []) = Inr (replicate n [])"
    using fill_kspaces_fold_gen [of "[0..<n]" n echoes "\<lambda>_. []" "replicate n []"]
    by (simp add: q fold_upd_replicate)
  with assms show ?thesis by (simp add: dividing_into_kspaces_def q)
qed

lemma many_rows_partition_fails:
  assumes "length echoes mod n \<noteq> 0" "n < length echoes"
  shows "dividing_into_kspaces n echoes =
           Inl (if n = 0 then ZeroDivisionError else ValueError)"
proof (cases "n = 0")
  case True then show ?thesis by (simp add: dividing_into_kspaces_def)
next
  case False
  let ?L = "length echoes" let ?q = "?L div n"
  have q1: "1 \<le> ?q" using assms False by (simp add: Suc_le_eq div_greater_zero_iff)
  have "length (slice_step 0 n echoes) = (?L + n - 1) div n"
    using False by (simp add: length_slice_step)
  also have "?L + n - 1 = n * ?q + (?L mod n + n - 1)"
    using assms(1) by (simp add: algebra_simps)
  also have "(n * ?q + (?L mod n + n - 1)) div n = ?q + (?L mod n + n - 1) div n"
    using False by (intro div_mult_self4) simp
  also have "(?L mod n + n - 1) div n = 1"
  proof (rule div_nat_eqI)
    show "n * 1 \<le> ?L mod n + n - 1" using assms(1) by simp
    have "?L mod n < n" using False by simp
    then show "?L mod n + n - 1 < n * Suc 1" by simp
  qed
  finally have len0: "length (slice_step 0 n echoes) = ?q + 1" .
  have "broadcast_to2 (length (slice_step 0 n echoes), ncols echoes) (?q, ncols echoes)
          (slice_step 0 n echoes) = Inl ValueError"
    using q1 by (simp add: broadcast_to2_def len0)
  moreover have "[0..<n] = 0 # [1..<n]" using False by (simp add: upt_rec)
  ultimately show ?thesis using False by (simp add: dividing_into_kspaces_def)
qed

lemma fft2_empty [simp]: "fft2 [] = Inl ValueError"
  by (simp add: fft2_def)

text \<open>
  Claim C8, amended. When the image count does not divide the number of echo rows,
  \<open>get_images\<close> raises and returns no images. The partitioning loop itself raises when
  there are more rows than images (ZeroDivisionError for no images, otherwise ValueError
  from the first slice assignment); with fewer rows than images it returns a stack of empty
  k-spaces, and the exception then comes from the first Fourier transform.
\<close>

theorem malformed_partition_fails:
  assumes "length echoes mod number_of_images \<noteq> 0"
  shows "(number_of_images < length echoes \<longrightarrow>
            dividing_into_kspaces number_of_images echoes =
              Inl (if number_of_images = 0 then ZeroDivisionError else ValueError))
       \<and> (length echoes < number_of_images \<longrightarrow>
            dividing_into_kspaces number_of_images echoes = Inr (replicate number_of_images []))
       \<and> (\<exists>e. get_images number_of_images echoes = Inl e)"
proof -
  let ?n = number_of_images
  have ne: "length echoes \<noteq> ?n" using assms by auto
  have "\<exists>e. get_images ?n echoes = Inl e"
  proof (cases "?n < length echoes")
    case True
    with assms show ?thesis by (simp add: get_images_def many_rows_partition_fails)
  next
    case False
    with ne have lt: "length echoes < ?n" by simp
    then have "[0..<?n] = 0 # [1..<?n]" by (simp add: upt_rec)
    with lt show ?thesis by (simp add: get_images_def few_rows_empty_kspaces)
  qed
  with assms show ?thesis
    by (simp add: many_rows_partition_fails few_rows_empty_kspaces)
qed

text \<open>
  Claim C8 as stated fails: one echo row cannot be divided into two images, and the
  partitioning returns two empty k-spaces instead of raising.
\<close>

theorem malformed_partition_counterexample:
  "length [[1 :: complex]] mod 2 \<noteq> 0 \<and> dividing_into_kspaces 2 [[1 :: complex]] = Inr [[], []]"
  by (simp add: dividing_into_kspaces_def slice_step_def broadcast_to2_def stretch_def
        ncols_def upt_rec eval_nat_numeral)

theorem malformed_partition_fails_witness:
  "dividing_into_kspaces 2 [[1, 2], [3, 4], [5, 6 :: complex]] = Inl ValueError
   \<and> (\<exists>e. get_images 2 [[1, 2], [3, 4], [5, 6 :: complex]] = Inl e)"
  using malformed_partition_fails [of "[[1, 2], [3, 4], [5, 6 :: complex]]" 2] by simp

section \<open>Properties of the reconstruction\<close>

lemma ncols_rect: "rect r c a \<Longrightarrow> 0 < r \<Longrightarrow> ncols a = c"
  by (cases a) (auto simp: rect_def ncols_def)

lemma length_dft [simp]: "length (dft xs) = length xs"
  by (simp add: dft_def)

lemma rect_map_dft: "rect r c a \<Longrightarrow> rect r c (map dft a)"
  by (auto simp: rect_def)

lemma rect_np_transpose: "rect r c a \<Longrightarrow> 0 < r \<Longrightarrow> rect c r (np_transpose a)"
  by (auto simp: rect_def np_transpose_def ncols_rect [unfolded rect_def])

lemma rect_dft2: "rect r c a \<Longrightarrow> 0 < r \<Longrightarrow> 0 < c \<Longrightarrow> rect r c (dft2 a)"
  unfolding dft2_def by (intro rect_np_transpose rect_map_dft) 

lemma length_roll [simp]: "length (roll s xs) = length xs"
  by (auto simp: roll_def)

lemma set_roll [simp]: "set (roll s xs) = set xs"
proof -
  have "set (drop k xs) \<union> set (take k xs) = set xs" for k
    using set_append [of "take k xs" "drop k xs"] by (simp add: Un_commute)
  then show ?thesis by (simp add: roll_def)
qed

lemma rect_fftshift: "rect r c a \<Longrightarrow> rect r c (fftshift a)"
  by (auto simp: rect_def fftshift_def)

lemma rect_flip10: "rect r c a \<Longrightarrow> rect r c (flip10 a)"
  by (auto simp: rect_def flip10_def)

lemma rect_map_map: "rect r c a \<Longrightarrow> rect r c (map (map f) a)"
  by (auto simp: rect_def)

lemma rect_reconstruct_spec:
  "rect r c a \<Longrightarrow> 0 < r \<Longrightarrow> 0 < c \<Longrightarrow> rect c r (reconstruct_spec a)"
  unfolding reconstruct_spec_def
  by (intro rect_map_map rect_np_transpose rect_flip10 rect_fftshift rect_dft2)

lemma shape2_rect: "rect r c a \<Longrightarrow> 0 < r \<Longrightarrow> shape2 a = (r, c)"
  by (simp add: shape2_def ncols_rect) (simp add: rect_def)

lemma fft2_rect: "rect r c a \<Longrightarrow> 0 < r \<Longrightarrow> 0 < c \<Longrightarrow> fft2 a = Inr (dft2 a)"
  by (simp add: fft2_def ncols_rect) (auto simp: rect_def)

lemma fill_images_fold:
  "\<forall>k\<in>set ks. rect w w (kspaces ! k) \<Longrightarrow> 0 < w \<Longrightarrow>
   fill_images (w, w) kspaces ks acc =
     Inr (fold (\<lambda>k a. a[k := reconstruct_spec (kspaces ! k)]) ks acc)"
proof (induction ks arbitrary: acc)
  case Nil then show ?case by simp
next
  case (Cons k ks)
  then have r: "rect w w (kspaces ! k)" by simp
  with Cons.prems have "shape2 (reconstruct_spec (kspaces ! k)) = (w, w)"
    by (intro shape2_rect rect_reconstruct_spec)
  then show ?case
    using Cons r by (simp add: fft2_rect reconstruct_spec_def [symmetric])
qed

lemma fill_images_not_square:
  assumes "rect r c (kspaces ! k)" "0 < r" "0 < c" "r \<noteq> c"
  shows "fill_images (r, c) kspaces (k # ks) acc = Inl ValueError"
proof -
  have "shape2 (reconstruct_spec (kspaces ! k)) = (c, r)"
    using assms by (intro shape2_rect rect_reconstruct_spec)
  then show ?thesis
    using assms by (auto simp: fft2_rect reconstruct_spec_def [symmetric] broadcast_to2_def)
qed

lemma reconstruct_spec_nonneg:
  "row \<in> set (reconstruct_spec kspace) \<Longrightarrow> x \<in> set row \<Longrightarrow> 0 \<le> x"
  by (auto simp: reconstruct_spec_def)

text \<open>
  On square k-spaces (as many rows per image as the echoes are wide, and at least one)
  \<open>get_images\<close> returns one image per k-space, equal to the magnitude of the
  transposed, flipped, shifted Fourier transform of that k-space, and every pixel is
  non-negative.
\<close>

lemma get_images_square:
  assumes "0 < number_of_images"
    and "length echoes = number_of_images * w"
    and "\<forall>row\<in>set echoes. length row = w"
    and "0 < w"
  shows "\<exists>kspaces images.
           dividing_into_kspaces number_of_images echoes = Inr kspaces
         \<and> get_images number_of_images echoes = Inr images
         \<and> length images = number_of_images
         \<and> (\<forall>k<number_of_images.
               images ! k = reconstruct_spec (kspaces ! k)
             \<and> (\<forall>row\<in>set (images ! k). \<forall>x\<in>set row. 0 \<le> x))"
proof -
  let ?n = number_of_images
  have q: "length echoes div ?n = w" using assms by simp
  have dv: "?n dvd length echoes" using assms by simp
  from dividing_into_kspaces_dvd [OF assms(1) dv assms(3)] obtain kspaces where
    ks: "dividing_into_kspaces ?n echoes = Inr kspaces" "length kspaces = ?n"
      "\<forall>k<?n. length (kspaces ! k) = w \<and> (\<forall>row\<in>set (kspaces ! k). length row = w)"
    by (auto simp: q)
  have nc: "ncols echoes = w" using assms by (cases echoes) (auto simp: ncols_def)
  let ?init = "replicate ?n (replicate w (replicate w (0::real)))"
  let ?images = "fold (\<lambda>k a. a[k := reconstruct_spec (kspaces ! k)]) [0..<?n] ?init"
  have "\<forall>k\<in>set [0..<?n]. rect w w (kspaces ! k)" using ks(3) by (simp add: rect_def)
  from fill_images_fold [OF this assms(4)]
  have run: "get_images ?n echoes = Inr ?images"
    by (simp add: get_images_def ks(1) q nc)
  have "?images ! k = reconstruct_spec (kspaces ! k)" if "k < ?n" for k
    using that by (simp add: nth_fold_upd)
  then show ?thesis
    using ks(1) run by (intro exI [of _ kspaces] exI [of _ ?images])
      (auto dest: reconstruct_spec_nonneg)
qed

lemma cis_minus_pi: "cis (- pi) = - 1"
  by (simp flip: cis_cnj)

text \<open>
  Claim C4 at a k-space of one row and two columns. The specification's reconstruction
  is the image \<open>[[3], [1]]\<close> of two rows and one column; \<open>get_images\<close> raises
  ValueError, because \<open>images\<close> is allocated with the shape of the k-spaces and the
  transposed image does not fit its slot. The same holds for every k-space that is not
  square (\<open>fill_images_not_square\<close>).
\<close>

theorem reconstruction_raises_on_nonsquare:
  "reconstruct_spec [[1, 2]] = [[3], [1]] \<and> get_images 1 [[1, 2]] = Inl ValueError"
proof -
  have a: "dividing_into_kspaces 1 [[1, 2 :: complex]] = Inr [[[1, 2]]]"
    by (simp add: dividing_into_kspaces_def slice_step_def ncols_def)
  have b: "rect 1 2 ([[[1, 2 :: complex]]] ! 0)" by (simp add: rect_def)
  have "fill_images (1, 2) [[[1, 2 :: complex]]] (0 # []) acc = Inl ValueError" for acc
    using b by (rule fill_images_not_square) simp_all
  then have "get_images 1 [[1, 2]] = Inl ValueError"
    unfolding get_images_def a by (simp add: ncols_def numeral_2_eq_2 del: fill_images.simps)
  moreover have "reconstruct_spec [[1, 2]] = [[3], [1]]"
    by (simp add: reconstruct_spec_def dft2_def dft_def np_transpose_def ncols_def
          fftshift_def roll_def flip10_def upt_rec cis_minus_pi)
  ultimately show ?thesis by simp
qed

lemma get_images_square_example:
  "get_images 1 [[1, 2], [3, 4]] = Inr [[[10, 4], [2, 0]]]"
proof -
  let ?E = "[[1, 2], [3, 4 :: complex]]"
  have h: "(0::nat) < 1" "length ?E = 1 * 2" "\<forall>row\<in>set ?E. length row = 2" "(0::nat) < 2"
    by simp_all
  have d: "dividing_into_kspaces 1 ?E = Inr [?E]"
    by (simp add: dividing_into_kspaces_def slice_step_def ncols_def)
  have r: "reconstruct_spec ?E = [[10, 4], [2, 0]]"
    by (simp add: reconstruct_spec_def dft2_def dft_def np_transpose_def ncols_def
          fftshift_def roll_def flip10_def upt_rec cis_minus_pi)
  from get_images_square [OF h] d r obtain images where
    i: "get_images 1 ?E = Inr images" "length images = 1" "images ! 0 = [[10, 4], [2, 0]]"
    by auto
  from i(2,3) have "images = [[[10, 4], [2, 0]]]" by (cases images) auto
  with i(1) show ?thesis by simp
qed

section \<open>Properties of the reordering\<close>

lemma length_concat_uniform:
  "\<forall>r\<in>set xss. length r = w \<Longrightarrow> length (concat xss) = length xss * w"
  by (induction xss) simp_all

lemma take_drop_concat:
  "\<forall>r\<in>set xss. length r = w \<Longrightarrow> i < length xss \<Longrightarrow>
   take w (drop (i * w) (concat xss)) = xss ! i"
proof (induction xss arbitrary: i)
  case Nil then show ?case by simp
next
  case (Cons r xss)
  then show ?case by (cases i) simp_all
qed

lemma nth_concat_uniform:
  "\<forall>r\<in>set xss. length r = w \<Longrightarrow> i < length xss \<Longrightarrow> j < w \<Longrightarrow>
   concat xss ! (i * w + j) = xss ! i ! j"
proof (induction xss arbitrary: i)
  case Nil then show ?case by simp
next
  case (Cons r xss)
  then show ?case by (cases i) (simp_all add: nth_append)
qed

lemma blocks_concat:
  "\<forall>r\<in>set xss. length r = w \<Longrightarrow> blocks (length xss) w (concat xss) = xss"
  by (rule nth_equalityI) (simp_all add: blocks_def take_drop_concat)

lemma concat_concat_map: "concat (concat xsss) = concat (map concat xsss)"
  by (induction xsss) simp_all

lemma length_blocks [simp]: "length (blocks n w xs) = n"
  by (simp add: blocks_def)

lemma nth_blocks: "i < n \<Longrightarrow> blocks n w xs ! i = take w (drop (i * w) xs)"
  by (simp add: blocks_def)

lemma reshape3_ravel3:
  assumes "length a = n" "\<forall>im\<in>set a. rect h w im"
  shows "reshape3 (n, h, w) (ravel3 a) = a"
proof -
  have len: "\<forall>r\<in>set (map concat a). length r = h * w"
    using assms(2) by (auto simp: rect_def length_concat_uniform)
  have "blocks n (h * w) (ravel3 a) = map concat a"
    using blocks_concat [OF len] assms(1) by (simp add: ravel3_def concat_concat_map)
  moreover have "blocks h w (concat im) = im" if "im \<in> set a" for im
    using that assms(2) blocks_concat [of im w] by (auto simp: rect_def)
  ultimately show ?thesis by (simp add: reshape3_def map_idI)
qed

lemma take_drop_take:
  assumes "s < n"
  shows "take a (drop (s * a) (take (n * a) ys)) = take a (drop (s * a) ys)"
proof -
  have "a \<le> n * a - s * a"
  proof -
    have "a * 1 \<le> a * (n - s)" using assms by (intro mult_le_mono2) simp
    also have "\<dots> = n * a - s * a" by (simp add: diff_mult_distrib2 mult.commute)
    finally show ?thesis by simp
  qed
  then show ?thesis by (simp add: drop_take min_absorb1)
qed

lemma shape3_eq:
  "a \<noteq> [] \<Longrightarrow> shape3 a = (length a, length (a ! 0), ncols (a ! 0))"
  by (cases a) (simp_all add: shape3_def)

lemma reorder_forT1IR_correct:
  assumes M: "0 < M" and N: "length images = M * S" and wf: "is_array3 images"
  shows "\<exists>out. reorder_forT1IR images M (length images) = Inr out
           \<and> shape3 out = shape3 images \<and> is_array3 out
           \<and> (\<forall>t<M. \<forall>s<S. out ! (s * M + t) = images ! (t * S + s))"
proof -
  obtain n0 H W where sh: "shape3 images = (n0, H, W)" by (cases "shape3 images") auto
  have n0: "n0 = M * S" using sh N by (cases images) (auto simp: shape3_def)
  have rc: "\<forall>im\<in>set images. rect H W im" using wf sh by (simp add: is_array3_def)
  have S: "length images div M = S" using M N by simp
  let ?a = "H * W"
  let ?flat = "ravel3 images"
  let ?A4 = "reshape4 (M, S, H, W) ?flat"
  let ?T = "map (\<lambda>s. map (\<lambda>t. images ! (t * S + s)) [0..<M]) [0..<S]"
  have flat: "?flat = concat (map concat images)" by (simp add: ravel3_def concat_concat_map)
  have lens: "\<forall>r\<in>set (map concat images). length r = ?a"
    using rc by (auto simp: rect_def length_concat_uniform)
  have idx: "t * S + s < M * S" if "t < M" "s < S" for t s
  proof -
    have "t * S + s < t * S + S" using that by simp
    also have "\<dots> = Suc t * S" by simp
    also have "\<dots> \<le> M * S" using that by (intro mult_le_mono1) simp
    finally show ?thesis .
  qed
  have A4: "?A4 ! t ! s = images ! (t * S + s)" if "t < M" "s < S" for t s
  proof -
    let ?blk = "take (S * ?a) (drop (t * (S * ?a)) ?flat)"
    have "?A4 ! t ! s = blocks H W (take ?a (drop (s * ?a) ?blk))"
      using that by (simp add: reshape4_def reshape3_def nth_blocks mult.assoc)
    also have "take ?a (drop (s * ?a) ?blk) = take ?a (drop (s * ?a) (drop (t * (S * ?a)) ?flat))"
      using that(2) by (rule take_drop_take)
    also have "\<dots> = take ?a (drop ((t * S + s) * ?a) ?flat)"
      by (simp add: algebra_simps)
    also have "\<dots> = concat (images ! (t * S + s))"
      using take_drop_concat [OF lens, of "t * S + s"] idx [OF that] N by (simp add: flat)
    also have "blocks H W \<dots> = images ! (t * S + s)"
    proof -
      have "images ! (t * S + s) \<in> set images" using idx [OF that] N by simp
      with rc have "rect H W (images ! (t * S + s))" by blast
      then show ?thesis using blocks_concat [of "images ! (t * S + s)" W] by (simp add: rect_def)
    qed
    finally show ?thesis .
  qed
  have T: "transpose_1023 (M, S) ?A4 = ?T"
    by (simp add: transpose_1023_def A4)
  have setT: "set (concat ?T) \<subseteq> set images"
  proof
    fix im assume "im \<in> set (concat ?T)"
    then obtain s t where "s < S" "t < M" "im = images ! (t * S + s)" by auto
    with idx [of t s] N show "im \<in> set images" by simp
  qed
  have lenT: "length (concat ?T) = M * S"
    using length_concat_uniform [of ?T M] by simp
  have out: "reshape3 (M * S, H, W) (ravel4 ?T) = concat ?T"
  proof -
    have "ravel4 ?T = ravel3 (concat ?T)" by (simp add: ravel4_def ravel3_def)
    moreover have "\<forall>im\<in>set (concat ?T). rect H W im" using setT rc by blast
    ultimately show ?thesis using lenT by (simp add: reshape3_ravel3)
  qed
  have run: "reorder_forT1IR images M (length images) = Inr (concat ?T)"
    using M by (simp add: reorder_forT1IR_def sh S n0 T out Let_def)
  have nth: "concat ?T ! (s * M + t) = images ! (t * S + s)" if "t < M" "s < S" for t s
    using nth_concat_uniform [of ?T M s t] that by simp
  have shape: "shape3 (concat ?T) = shape3 images"
  proof (cases "images = []")
    case True
    with N M have "S = 0" by simp
    with True show ?thesis by simp
  next
    case False
    with N M have pos: "0 < S" by (cases S) auto
    from nth [OF M pos] have "concat ?T ! 0 = images ! 0" by simp
    moreover have "concat ?T \<noteq> []" using lenT M pos by (metis length_0_conv mult_is_0 less_numeral_extra(3))
    ultimately show ?thesis using False lenT N by (simp add: shape3_eq)
  qed
  have "is_array3 (concat ?T)"
    using setT rc shape sh by (auto simp: is_array3_def)
  with run nth shape show ?thesis by blast
qed

text \<open>
  Claim C3. For a stack of \<open>M * S\<close> images of one shape, given in inversion-time-major
  order with \<open>M\<close> inversion times, the reorderer returns a stack of the same shape in
  which image \<open>s * M + t\<close> is input image \<open>t * S + s\<close>.
\<close>

theorem reorder_slice_major:
  assumes "0 < M" and "length images = M * S" and "is_array3 images"
  shows "\<exists>out. reorder_forT1IR images M (length images) = Inr out
           \<and> shape3 out = shape3 images \<and> is_array3 out
           \<and> (\<forall>t<M. \<forall>s<S. out ! (s * M + t) = images ! (t * S + s))"
  using assms by (rule reorder_forT1IR_correct)

theorem reorder_slice_major_witness:
  "\<exists>out. reorder_forT1IR [[[1]], [[2]], [[3]], [[4]], [[5]], [[6 :: int]]] 2 6 = Inr out
      \<and> out ! 2 = [[2]] \<and> out ! 3 = [[5]]"
proof -
  let ?I = "[[[1]], [[2]], [[3]], [[4]], [[5]], [[6 :: int]]]"
  have h: "(0::nat) < 2" "length ?I = 2 * 3" "is_array3 ?I"
    by (simp_all add: is_array3_def shape3_def rect_def ncols_def)
  from reorder_slice_major [OF h] obtain out where
    o: "reorder_forT1IR ?I 2 (length ?I) = Inr out"
       "\<forall>t<2. \<forall>s<3. out ! (s * 2 + t) = ?I ! (t * 3 + s)"
    by blast
  from o(2) [rule_format, of 0 1] have "out ! 2 = [[2]]" by simp
  moreover from o(2) [rule_format, of 1 1] have "out ! 3 = [[5]]" by simp
  moreover have "length ?I = 6" by simp
  ultimately show ?thesis using o(1) by (simp only: exI [of _ out])
qed

section \<open>Properties of the synthesis and of the fit\<close>

lemma digit_inj: "d < 10 \<Longrightarrow> e < 10 \<Longrightarrow> digit d = digit e \<Longrightarrow> d = e"
proof -
  assume a: "d < 10" "e < 10" "digit d = digit e"
  have "distinct ''0123456789''" by simp
  then show ?thesis using a unfolding digit_def
    by (subst (asm) nth_eq_iff_index_eq) simp_all
qed

lemma digit_in: "d < 10 \<Longrightarrow> digit d \<in> set ''0123456789''"
  unfolding digit_def by (rule nth_mem) simp

lemma str_nat_digits: "set (str_nat n) \<subseteq> set ''0123456789''"
proof (induction n rule: str_nat.induct)
  case (1 n)
  show ?case
  proof (cases "n < 10")
    case True
    then show ?thesis using digit_in [of n] by (subst str_nat.simps) simp
  next
    case False
    have "n mod 10 < 10" by simp
    from digit_in [OF this] 1 False show ?thesis by (subst str_nat.simps) simp
  qed
qed

lemma str_nat_nonempty: "str_nat n \<noteq> []"
  by (subst str_nat.simps) simp

lemma str_nat_inj: "str_nat n = str_nat m \<Longrightarrow> n = m"
proof (induction n arbitrary: m rule: str_nat.induct)
  case (1 n)
  show ?case
  proof (cases "n < 10")
    case n: True
    show ?thesis
    proof (cases "m < 10")
      case True
      with n 1(2) show ?thesis
        by (simp add: str_nat.simps [of n] str_nat.simps [of m] digit_inj)
    next
      case False
      with n 1(2) str_nat_nonempty [of "m div 10"] show ?thesis
        by (simp add: str_nat.simps [of n] str_nat.simps [of m])
    qed
  next
    case n: False
    show ?thesis
    proof (cases "m < 10")
      case True
      with n 1(2) str_nat_nonempty [of "n div 10"] show ?thesis
        by (simp add: str_nat.simps [of n] str_nat.simps [of m])
    next
      case False
      with n 1(2) have e: "str_nat (n div 10) = str_nat (m div 10)"
        "digit (n mod 10) = digit (m mod 10)"
        by (simp_all add: str_nat.simps [of n] str_nat.simps [of m])
      from 1(1) [OF n e(1)] have "n div 10 = m div 10" .
      moreover from e(2) have "n mod 10 = m mod 10" by (intro digit_inj) simp_all
      ultimately show ?thesis by (metis div_mult_mod_eq)
    qed
  qed
qed

lemma str_int_inj: "str_int a = str_int b \<Longrightarrow> a = b"
proof -
  assume e: "str_int a = str_int b"
  have nd: "CHR ''-'' \<notin> set (str_nat n)" for n
    using str_nat_digits [of n] by auto
  have hd: "hd (str_nat n) \<noteq> CHR ''-''" for n
    using nd [of n] str_nat_nonempty [of n] by (cases "str_nat n") auto
  show ?thesis
  proof (cases "a < 0")
    case a: True
    show ?thesis
    proof (cases "b < 0")
      case True
      with a e have "nat (- a) = nat (- b)" by (simp add: str_int_def str_nat_inj)
      with a True show ?thesis by simp
    next
      case False
      with a e hd [of "nat b"] show ?thesis by (auto simp: str_int_def dest: arg_cong [where f = hd])
    qed
  next
    case a: False
    show ?thesis
    proof (cases "b < 0")
      case True
      with a e hd [of "nat a"] show ?thesis by (auto simp: str_int_def dest: arg_cong [where f = hd])
    next
      case False
      with a e have "nat a = nat b" by (simp add: str_int_def str_nat_inj)
      with a False show ?thesis by simp
    qed
  qed
qed

lemma split_at_first:
  "x \<notin> set xs \<Longrightarrow> x \<notin> set xs' \<Longrightarrow> xs @ x # ys = xs' @ x # ys' \<Longrightarrow> xs = xs' \<and> ys = ys'"
proof (induction xs arbitrary: xs')
  case Nil
  then show ?case by (cases xs') auto
next
  case (Cons a as)
  then show ?case by (cases xs') auto
qed

lemma fname_inj: "fname j txt t = fname j' txt t' \<Longrightarrow> j = j' \<and> t = t'"
proof -
  assume e: "fname j txt t = fname j' txt t'"
  have us: "CHR ''_'' \<notin> set (str_nat n)" for n
    using str_nat_digits [of n] by auto
  from e have "str_nat (j + 1) @ CHR ''_'' # (txt @ CHR ''_'' # t)
      = str_nat (j' + 1) @ CHR ''_'' # (txt @ CHR ''_'' # t')"
    by (simp add: fname_def)
  from split_at_first [OF us us this]
  have "str_nat (j + 1) = str_nat (j' + 1)" and "t = t'" by simp_all
  then show ?thesis using str_nat_inj [of "j + 1" "j' + 1"] by simp
qed

lemma distinct_str_num_ints:
  assumes "\<forall>t\<in>set T_wish. \<exists>n. t = PyInt n"
  shows "distinct (map (str_num fs) T_wish) \<longleftrightarrow> distinct T_wish"
proof -
  have "inj_on (str_num fs) (set T_wish)"
  proof (rule inj_onI)
    fix a b assume "a \<in> set T_wish" "b \<in> set T_wish" and e: "str_num fs a = str_num fs b"
    with assms obtain n m where "a = PyInt n" "b = PyInt m" by blast
    with e show "a = b" using str_int_inj [of n m] by (simp add: str_num_def)
  qed
  then show ?thesis by (simp add: distinct_map)
qed

lemma synth_step_frame:
  assumes "synth_step fs fn T_wish T_maps Momaps Cmaps txt i j (s, imgs) = ((s', imgs'), r)"
  shows "arrays3 s' = arrays3 s \<and> take (length (arrays2 s)) (arrays2 s') = arrays2 s"
  using assms
  by (auto simp: synth_step_def Let_def split: if_splits sum.splits)

lemma synth_step_ok:
  assumes "synth_step fs fn T_wish T_maps Momaps Cmaps txt i j (s, imgs) = ((s', imgs'), None)"
  shows "j < length T_maps \<and> j < length Cmaps
       \<and> arrays3 s' = arrays3 s
       \<and> arrays2 s' = arrays2 s @ [stored_image fn (T_wish ! i) (arrays2 s ! (T_maps ! j))
                                      (arrays2 s ! (Momaps ! j)) (arrays2 s ! (Cmaps ! j))]
       \<and> imgs' = imgs @ [length (arrays2 s)]
       \<and> files s' = files s @ [(fname j txt (str_num fs (T_wish ! i)),
             stored_image fn (T_wish ! i) (arrays2 s ! (T_maps ! j))
               (arrays2 s ! (Momaps ! j)) (arrays2 s ! (Cmaps ! j)))]"
  using assms
  by (auto simp: synth_step_def stored_image_def model_image_def rescale_def Let_def
           split: if_splits sum.splits)

lemma inner_loop_ok:
  assumes run: "for_each (synth_step fs fn T_wish T_maps Momaps Cmaps txt i) js (s, imgs)
                  = ((s', imgs'), None)"
    and pre: "take (length hb) (arrays2 s) = hb"
    and valid: "\<forall>a\<in>set T_maps \<union> set Cmaps. a < length hb"
               "\<forall>j\<in>set js. j < length Momaps \<and> Momaps ! j < length hb"
  shows "arrays3 s' = arrays3 s
       \<and> arrays2 s' = arrays2 s @ map (loop_image fn T_wish T_maps Momaps Cmaps hb i) js
       \<and> imgs' = imgs @ map (\<lambda>q. length (arrays2 s) + q) [0..<length js]
       \<and> files s' = files s @ map (\<lambda>j. (fname j txt (str_num fs (T_wish ! i)), loop_image fn T_wish T_maps Momaps Cmaps hb i j)) js"
  using run pre valid(2)
proof (induction js arbitrary: s imgs)
  case Nil
  then show ?case by simp
next
  case (Cons j js)
  obtain s1 imgs1 r where st: "synth_step fs fn T_wish T_maps Momaps Cmaps txt i j (s, imgs)
      = ((s1, imgs1), r)"
    by (metis surj_pair)
  with Cons.prems(1) have r: "r = None"
    and rest: "for_each (synth_step fs fn T_wish T_maps Momaps Cmaps txt i) js (s1, imgs1)
                 = ((s', imgs'), None)"
    by (auto split: option.splits)
  note ok = synth_step_ok [OF st [unfolded r]]
  have rd: "arrays2 s ! a = hb ! a" if "a < length hb" for a
    using that Cons.prems(2) by (metis nth_take)
  have lt: "T_maps ! j < length hb" "Cmaps ! j < length hb" "Momaps ! j < length hb"
    using ok valid(1) Cons.prems(3) by auto
  have img: "stored_image fn (T_wish ! i) (arrays2 s ! (T_maps ! j))
               (arrays2 s ! (Momaps ! j)) (arrays2 s ! (Cmaps ! j)) = loop_image fn T_wish T_maps Momaps Cmaps hb i j"
    using lt by (simp add: loop_image_def rd)
  have len: "length hb \<le> length (arrays2 s)"
    using arg_cong [OF Cons.prems(2), of length] by simp
  have pre1: "take (length hb) (arrays2 s1) = hb"
    using ok Cons.prems(2) len by simp
  from Cons.IH [OF rest pre1] Cons.prems(3)
  have ih: "arrays3 s' = arrays3 s1"
    "arrays2 s' = arrays2 s1 @ map (loop_image fn T_wish T_maps Momaps Cmaps hb i) js"
    "imgs' = imgs1 @ map (\<lambda>q. length (arrays2 s1) + q) [0..<length js]"
    "files s' = files s1 @ map (\<lambda>j. (fname j txt (str_num fs (T_wish ! i)), loop_image fn T_wish T_maps Momaps Cmaps hb i j)) js"
    by simp_all
  have "map (\<lambda>q. length (arrays2 s) + q) [0..<length (j # js)]
      = length (arrays2 s) # map (\<lambda>q. length (arrays2 s1) + q) [0..<length js]"
    using ok by (simp add: upt_rec [of 0] map_Suc_upt [symmetric] del: upt_Suc)
  with ih ok img show ?case by simp
qed

lemma map_add_upt_append:
  "map (\<lambda>q. n + q) [0..<a] @ map (\<lambda>q. n + a + q) [0..<b] = map (\<lambda>q. (n::nat) + q) [0..<a + b]"
proof -
  have "map (\<lambda>q. n + a + q) [0..<b] = map (\<lambda>q. n + q) [a..<a + b]"
    by (induction b) (simp_all add: add.assoc)
  then show ?thesis by (simp add: upt_add_eq_append [of 0 a b])
qed

lemma outer_loop_ok:
  assumes run: "for_each (\<lambda>i. for_each (synth_step fs fn T_wish T_maps Momaps Cmaps txt i) js) is
                  (s, imgs) = ((s', imgs'), None)"
    and pre: "take (length hb) (arrays2 s) = hb"
    and valid: "\<forall>a\<in>set T_maps \<union> set Cmaps. a < length hb"
               "\<forall>j\<in>set js. j < length Momaps \<and> Momaps ! j < length hb"
  shows "arrays3 s' = arrays3 s
       \<and> arrays2 s' = arrays2 s
            @ concat (map (\<lambda>i. map (loop_image fn T_wish T_maps Momaps Cmaps hb i) js) is)
       \<and> imgs' = imgs @ map (\<lambda>q. length (arrays2 s) + q) [0..<length is * length js]
       \<and> files s' = files s
            @ concat (map (\<lambda>i. map (\<lambda>j. (fname j txt (str_num fs (T_wish ! i)),
                                          loop_image fn T_wish T_maps Momaps Cmaps hb i j)) js) is)"
  using run pre
proof (induction "is" arbitrary: s imgs)
  case Nil
  then show ?case by simp
next
  case (Cons i "is")
  obtain s1 imgs1 r where st:
    "for_each (synth_step fs fn T_wish T_maps Momaps Cmaps txt i) js (s, imgs) = ((s1, imgs1), r)"
    by (metis surj_pair)
  with Cons.prems(1) have r: "r = None"
    and rest: "for_each (\<lambda>i. for_each (synth_step fs fn T_wish T_maps Momaps Cmaps txt i) js) is
                 (s1, imgs1) = ((s', imgs'), None)"
    by (auto split: option.splits)
  note ok = inner_loop_ok [OF st [unfolded r] Cons.prems(2) valid]
  have len: "length hb \<le> length (arrays2 s)"
    using arg_cong [OF Cons.prems(2), of length] by simp
  have pre1: "take (length hb) (arrays2 s1) = hb"
    using ok Cons.prems(2) len by simp
  note ih = Cons.IH [OF rest pre1]
  have l1: "length (arrays2 s1) = length (arrays2 s) + length js" using ok by simp
  have "imgs' = imgs @ map (\<lambda>q. length (arrays2 s) + q) [0..<length js]
                  @ map (\<lambda>q. length (arrays2 s) + length js + q) [0..<length is * length js]"
    using ih ok by (simp add: l1)
  then have "imgs' = imgs @ map (\<lambda>q. length (arrays2 s) + q) [0..<length (i # is) * length js]"
    by (simp add: map_add_upt_append)
  with ih ok show ?case by simp
qed

lemma length_concat_grid [simp]:
  "length (concat (map (\<lambda>i. map (f i) [0..<K]) [0..<R])) = R * K"
  using length_concat_uniform [of "map (\<lambda>i. map (f i) [0..<K]) [0..<R]" K] by simp

lemma nth_concat_grid:
  assumes "i < R" "j < K"
  shows "concat (map (\<lambda>i. map (f i) [0..<K]) [0..<R]) ! (i * K + j) = f i j"
  using nth_concat_uniform [of "map (\<lambda>i. map (f i) [0..<K]) [0..<R]" K i j] assms by simp

lemma grid_index: "i < R \<Longrightarrow> j < K \<Longrightarrow> i * K + j < R * (K::nat)"
proof -
  assume a: "i < R" "j < K"
  then have "i * K + j < Suc i * K" by simp
  also have "\<dots> \<le> R * K" using a by (intro mult_le_mono1) simp
  finally show ?thesis .
qed

lemma theoret_MRI_run:
  assumes run: "theoret_MRI fs fn T_wish T_maps Momaps Cmaps s = (s', Inr imgs)"
    and valid: "\<forall>a\<in>set T_maps \<union> set Momaps \<union> set Cmaps. a < length (arrays2 s)"
  shows "arrays3 s' = arrays3 s"
    and "arrays2 s' = arrays2 s @ concat (map (\<lambda>i. map
            (loop_image fn T_wish T_maps Momaps Cmaps (arrays2 s) i) [0..<length Momaps])
            [0..<length T_wish])"
    and "imgs = map (\<lambda>q. length (arrays2 s) + q) [0..<length T_wish * length Momaps]"
    and "files s' = concat (map (\<lambda>i. map (\<lambda>j. (fname j (if fn = T1 then ''TI'' else ''TE'')
              (str_num fs (T_wish ! i)), loop_image fn T_wish T_maps Momaps Cmaps (arrays2 s) i j))
            [0..<length Momaps]) [0..<length T_wish])"
proof -
  let ?txt = "if fn = T1 then ''TI'' else ''TE''"
  let ?s0 = "s\<lparr>files := []\<rparr>"
  from run have loop: "for_each (\<lambda>i. for_each (synth_step fs fn T_wish T_maps Momaps Cmaps ?txt i)
        [0..<length Momaps]) [0..<length T_wish] (?s0, []) = ((s', imgs), None)"
    by (auto simp: theoret_MRI_def Let_def split: prod.splits option.splits)
  have pre: "take (length (arrays2 s)) (arrays2 ?s0) = arrays2 s" by simp
  have v1: "\<forall>a\<in>set T_maps \<union> set Cmaps. a < length (arrays2 s)" using valid by auto
  have v2: "\<forall>j\<in>set [0..<length Momaps]. j < length Momaps \<and> Momaps ! j < length (arrays2 s)"
    using valid by auto
  note ok = outer_loop_ok [OF loop pre v1 v2]
  from ok show "arrays3 s' = arrays3 s" by simp
  from ok show "arrays2 s' = arrays2 s @ concat (map (\<lambda>i. map
            (loop_image fn T_wish T_maps Momaps Cmaps (arrays2 s) i) [0..<length Momaps])
            [0..<length T_wish])" by simp
  from ok show "imgs = map (\<lambda>q. length (arrays2 s) + q) [0..<length T_wish * length Momaps]"
    by simp
  from ok show "files s' = concat (map (\<lambda>i. map (\<lambda>j. (fname j ?txt
              (str_num fs (T_wish ! i)), loop_image fn T_wish T_maps Momaps Cmaps (arrays2 s) i j))
            [0..<length Momaps]) [0..<length T_wish])" by simp
qed

lemma distinct_grid_names:
  assumes "distinct (map (str_num fs) T_wish)"
  shows "distinct (concat (map (\<lambda>i. map (\<lambda>j. fname j txt (str_num fs (T_wish ! i))) [0..<K])
                             [0..<length T_wish]))"
proof -
  let ?R = "length T_wish"
  let ?names = "concat (map (\<lambda>i. map (\<lambda>j. fname j txt (str_num fs (T_wish ! i))) [0..<K]) [0..<?R])"
  have nth: "?names ! q = fname (q mod K) txt (str_num fs (T_wish ! (q div K)))" if "q < ?R * K" for q
  proof -
    have K: "0 < K" using that by (cases K) auto
    have "q div K < ?R" using that by (simp add: less_mult_imp_div_less)
    moreover have "q mod K < K" using K by simp
    ultimately have "?names ! (q div K * K + q mod K)
        = fname (q mod K) txt (str_num fs (T_wish ! (q div K)))"
      by (rule nth_concat_grid)
    then show ?thesis by simp
  qed
  show ?thesis
  proof (subst distinct_conv_nth, intro allI impI)
    fix q q' assume a: "q < length ?names" "q' < length ?names" "q \<noteq> q'"
    then have b: "q < ?R * K" "q' < ?R * K" by simp_all
    have K: "0 < K" using b by (cases K) auto
    show "?names ! q \<noteq> ?names ! q'"
    proof
      assume "?names ! q = ?names ! q'"
      with nth b have "fname (q mod K) txt (str_num fs (T_wish ! (q div K)))
                     = fname (q' mod K) txt (str_num fs (T_wish ! (q' div K)))" by simp
      then have m: "q mod K = q' mod K"
        and t: "str_num fs (T_wish ! (q div K)) = str_num fs (T_wish ! (q' div K))"
        using fname_inj by blast+
      have lt: "q div K < ?R" "q' div K < ?R" using b by (simp_all add: less_mult_imp_div_less)
      with t have "map (str_num fs) T_wish ! (q div K) = map (str_num fs) T_wish ! (q' div K)"
        by simp
      moreover have "q div K < length (map (str_num fs) T_wish)"
        "q' div K < length (map (str_num fs) T_wish)" using lt by simp_all
      ultimately have "q div K = q' div K"
        using assms nth_eq_iff_index_eq [of "map (str_num fs) T_wish" "q div K" "q' div K"]
        by blast
      with m have "q = q'" by (metis div_mult_mod_eq)
      with a show False by simp
    qed
  qed
qed

lemma grid_names_distinct_only_if:
  assumes d: "distinct (concat (map (\<lambda>i. map (\<lambda>j. fname j txt (str_num fs (T_wish ! i))) [0..<K])
                                   [0..<length T_wish]))"
    and K: "0 < K"
  shows "distinct (map (str_num fs) T_wish)"
proof (subst distinct_conv_nth, intro allI impI)
  let ?R = "length T_wish"
  let ?names = "concat (map (\<lambda>i. map (\<lambda>j. fname j txt (str_num fs (T_wish ! i))) [0..<K]) [0..<?R])"
  fix i i' assume "i < length (map (str_num fs) T_wish)" "i' < length (map (str_num fs) T_wish)"
    "i \<noteq> i'"
  then have a: "i < ?R" "i' < ?R" "i \<noteq> i'" by simp_all
  have "i * K + 0 < length ?names" "i' * K + 0 < length ?names"
    using a K grid_index [of i ?R 0 K] grid_index [of i' ?R 0 K] by simp_all
  moreover have "i * K + 0 \<noteq> i' * K + 0" using a K by simp
  ultimately have "?names ! (i * K + 0) \<noteq> ?names ! (i' * K + 0)"
    using d unfolding distinct_conv_nth by blast
  moreover have "?names ! (i * K + 0) = fname 0 txt (str_num fs (T_wish ! i))"
    using a K by (intro nth_concat_grid)
  moreover have "?names ! (i' * K + 0) = fname 0 txt (str_num fs (T_wish ! i'))"
    using a K by (intro nth_concat_grid)
  ultimately show "map (str_num fs) T_wish ! i \<noteq> map (str_num fs) T_wish ! i'"
    using a by auto
qed

lemma theoret_MRI_count_order_names:
  assumes run: "theoret_MRI fs fn T_wish T_maps Momaps Cmaps s = (s', Inr imgs)"
    and valid: "\<forall>a\<in>set T_maps \<union> set Momaps \<union> set Cmaps. a < length (arrays2 s)"
  shows "length imgs = length T_wish * length Momaps
       \<and> length (files s') = length T_wish * length Momaps
       \<and> (\<forall>i<length T_wish. \<forall>j<length Momaps.
             files s' ! (i * length Momaps + j)
               = (fname j (if fn = T1 then ''TI'' else ''TE'') (str_num fs (T_wish ! i)),
                  arrays2 s' ! (imgs ! (i * length Momaps + j)))
           \<and> arrays2 s' ! (imgs ! (i * length Momaps + j))
               = stored_image fn (T_wish ! i) (arrays2 s ! (T_maps ! j))
                   (arrays2 s ! (Momaps ! j)) (arrays2 s ! (Cmaps ! j)))
       \<and> (distinct (map fst (files s'))
            \<longleftrightarrow> length Momaps = 0 \<or> distinct (map (str_num fs) T_wish))"
proof -
  let ?R = "length T_wish" let ?K = "length Momaps"
  let ?txt = "if fn = T1 then ''TI'' else ''TE''"
  let ?img = "loop_image fn T_wish T_maps Momaps Cmaps (arrays2 s)"
  note r = theoret_MRI_run [OF run valid]
  have len: "length imgs = ?R * ?K" "length (files s') = ?R * ?K"
    by (simp_all add: r(3) r(4))
  have pt: "files s' ! (i * ?K + j) = (fname j ?txt (str_num fs (T_wish ! i)), arrays2 s' ! (imgs ! (i * ?K + j)))
          \<and> arrays2 s' ! (imgs ! (i * ?K + j))
               = stored_image fn (T_wish ! i) (arrays2 s ! (T_maps ! j))
                   (arrays2 s ! (Momaps ! j)) (arrays2 s ! (Cmaps ! j))"
    if "i < ?R" "j < ?K" for i j
  proof -
    have q: "i * ?K + j < ?R * ?K" using that by (rule grid_index)
    have a: "imgs ! (i * ?K + j) = length (arrays2 s) + (i * ?K + j)"
      using q by (simp add: r(3))
    have b: "arrays2 s' ! (length (arrays2 s) + (i * ?K + j)) = ?img i j"
      using that by (simp add: r(2) nth_concat_grid)
    have c: "files s' ! (i * ?K + j) = (fname j ?txt (str_num fs (T_wish ! i)), ?img i j)"
      using that by (simp only: r(4) nth_concat_grid)
    show ?thesis using a b c by (simp add: loop_image_def)
  qed
  have names: "map fst (files s')
      = concat (map (\<lambda>i. map (\<lambda>j. fname j ?txt (str_num fs (T_wish ! i))) [0..<?K]) [0..<?R])"
    by (simp add: r(4) map_concat comp_def)
  have "distinct (map fst (files s')) \<longleftrightarrow> ?K = 0 \<or> distinct (map (str_num fs) T_wish)"
  proof (cases "?K = 0")
    case True
    have e: "concat (map (\<lambda>i. []) xs) = ([] :: string list)" for xs :: "nat list"
      by (induction xs) simp_all
    from True show ?thesis by (simp add: names e)
  next
    case False
    then show ?thesis
      using distinct_grid_names [of fs T_wish ?txt ?K]
        grid_names_distinct_only_if [of ?txt fs T_wish ?K]
      by (auto simp only: names)
  qed
  with len pt show ?thesis by blast
qed

lemma for_each_invariant:
  assumes step: "\<And>i st st' r. body i st = (st', r) \<Longrightarrow> P st \<Longrightarrow> P st'"
    and init: "P st"
    and run: "for_each body xs st = (st', r)"
  shows "P st'"
  using init run
proof (induction xs arbitrary: st)
  case Nil
  then show ?case by simp
next
  case (Cons i xs)
  obtain st1 r1 where b: "body i st = (st1, r1)" by (cases "body i st")
  from step [OF b Cons.prems(1)] have p1: "P st1" .
  show ?case
  proof (cases r1)
    case None
    with b Cons.prems(2) have "for_each body xs st1 = (st', r)" by simp
    from Cons.IH [OF p1 this] show ?thesis .
  next
    case (Some e)
    with b Cons.prems(2) have "st' = st1" by simp
    with p1 show ?thesis by simp
  qed
qed

lemma kept_refl [simp]: "kept s s"
  by (simp add: kept_def)

lemma kept_trans: "kept s s1 \<Longrightarrow> kept s1 s2 \<Longrightarrow> kept s s2"
proof -
  assume a: "kept s s1" "kept s1 s2"
  from a(1) have l: "length (arrays2 s) \<le> length (arrays2 s1)"
    unfolding kept_def by (metis length_take min.cobounded1 min.commute)
  have "take (length (arrays2 s)) (arrays2 s2)
      = take (length (arrays2 s)) (take (length (arrays2 s1)) (arrays2 s2))"
    using l by (simp add: min_absorb1)
  with a show ?thesis by (simp add: kept_def)
qed

lemma kept_nth: "kept s s' \<Longrightarrow> a < length (arrays2 s) \<Longrightarrow> arrays2 s' ! a = arrays2 s ! a"
  unfolding kept_def by (metis nth_take)

lemma synth_step_kept:
  "synth_step fs fn T_wish T_maps Momaps Cmaps txt i j (s, imgs) = ((s', imgs'), r) \<Longrightarrow> kept s s'"
  using synth_step_frame by (simp add: kept_def)

lemma maps_step_kept:
  "maps_step cf fn T_train images i (s, maps) = ((s', maps'), r) \<Longrightarrow> kept s s'"
  by (cases maps) (auto simp: maps_step_def kept_def Let_def split: prod.splits sum.splits)

lemma theoret_MRI_kept:
  assumes "theoret_MRI fs fn T_wish T_maps Momaps Cmaps s = (s', r)"
  shows "kept s s'"
proof -
  let ?txt = "if fn = T1 then ''TI'' else ''TE''"
  let ?inner = "\<lambda>i. for_each (synth_step fs fn T_wish T_maps Momaps Cmaps ?txt i) [0..<length Momaps]"
  obtain imgs r' where loop:
    "for_each ?inner [0..<length T_wish] (s\<lparr>files := []\<rparr>, []) = ((s', imgs), r')"
    using assms by (auto simp: theoret_MRI_def Let_def split: prod.splits option.splits)
  have inner: "kept s (fst st')" if "?inner i st = (st', q)" "kept s (fst st)" for i st st' q
  proof (rule for_each_invariant [where P = "\<lambda>st. kept s (fst st)", OF _ that(2) that(1)])
    fix j st1 st2 q1
    assume "synth_step fs fn T_wish T_maps Momaps Cmaps ?txt i j st1 = (st2, q1)" "kept s (fst st1)"
    then show "kept s (fst st2)"
      using synth_step_kept [of fs fn T_wish T_maps Momaps Cmaps ?txt i j "fst st1" "snd st1"
          "fst st2" "snd st2" q1]
      by (auto intro: kept_trans)
  qed
  have "kept s (fst (s\<lparr>files := []\<rparr>, []::nat list))" by (simp add: kept_def)
  from for_each_invariant [where P = "\<lambda>st. kept s (fst st)", OF inner this loop]
  show ?thesis by simp
qed

lemma calculate_maps_kept:
  assumes "calculate_maps cf images T_train fn s = (s', r)"
  shows "kept s s'"
proof (cases "length T_train = 0")
  case True
  with assms show ?thesis by (simp add: calculate_maps_def)
next
  case False
  then obtain maps r' where loop:
    "for_each (maps_step cf fn T_train images)
       [0..<length (arrays3 s ! images) div length T_train] (s, [], [], []) = ((s', maps), r')"
    using assms by (auto simp: calculate_maps_def split: prod.splits option.splits)
  have step: "kept s (fst st')"
    if "maps_step cf fn T_train images i st = (st', q)" "kept s (fst st)" for i st st' q
    using that maps_step_kept [of cf fn T_train images i "fst st" "snd st" "fst st'" "snd st'" q]
    by (auto intro: kept_trans)
  have "kept s (fst (s, [] :: nat list, [] :: nat list, [] :: nat list))" by simp
  from for_each_invariant [where P = "\<lambda>st. kept s (fst st)", OF step this loop]
  show ?thesis by simp
qed

lemma fmul_commute: "fmul x y = fmul y x"
  by (cases x; cases y) (simp_all add: mult.commute)

lemma bounds_eq_spec: "bounds fn m = bounds_spec fn m"
  by (cases fn) (simp_all add: bounds_def bounds_spec_def fmul_commute)

lemma task_converged:
  assumes "amax (map (\<lambda>im. im ! k ! j) slice1) = Inr pmax"
    and "cf fn T_train (map (\<lambda>im. im ! k ! j) slice1) (bounds_spec fn pmax) 1000 = Inr p"
  shows "task cf fn T_train slice1 k j = Inr p"
  using assms by (simp add: task_def bounds_eq_spec)

lemma task_not_converged:
  assumes "amax (map (\<lambda>im. im ! k ! j) slice1) = Inr pmax"
    and "cf fn T_train (map (\<lambda>im. im ! k ! j) slice1) (bounds_spec fn pmax) 1000
           = Inl RuntimeError"
  shows "task cf fn T_train slice1 k j = Inr (sentinel fn pmax)"
  using assms by (cases fn) (simp_all add: task_def bounds_eq_spec sentinel_def)

lemma task_cong:
  assumes "amax (map (\<lambda>im. im ! k ! j) slice1) = Inr pmax"
    and "cf fn T_train (map (\<lambda>im. im ! k ! j) slice1) (bounds_spec fn pmax) 1000
       = cf' fn T_train (map (\<lambda>im. im ! k ! j) slice1) (bounds_spec fn pmax) 1000"
  shows "task cf fn T_train slice1 k j = task cf' fn T_train slice1 k j"
  using assms by (simp add: task_def bounds_eq_spec)

lemma gather_all_Inr:
  "\<forall>r\<in>set rs. \<exists>v. r = Inr v \<Longrightarrow> gather rs = Inr (map projr rs)"
  by (induction rs) auto

lemma column_ok:
  assumes "result \<noteq> []" "\<forall>p\<in>set result. length p = n" "c < n"
  shows "column c result = Inr (map (\<lambda>p. p ! c) result)"
  using assms by (cases result) (auto simp: column_def ncols_def)

lemma foldl_fmax_NaN: "foldl fmax NaN xs = NaN"
  by (induction xs) (simp_all add: fmax_def)

lemma foldl_fmax_has_NaN: "NaN \<in> set (x # xs) \<Longrightarrow> foldl fmax x xs = NaN"
proof (induction xs arbitrary: x)
  case Nil
  then show ?case by simp
next
  case (Cons y ys)
  show ?case
  proof (cases "x = NaN \<or> y = NaN")
    case True
    then have "fmax x y = NaN" by (simp add: fmax_def)
    then show ?thesis by (simp add: foldl_fmax_NaN)
  next
    case False
    with Cons.prems have "NaN \<in> set (fmax x y # ys)" by auto
    from Cons.IH [OF this] show ?thesis by simp
  qed
qed

lemma fless_not_trans:
  "a \<noteq> NaN \<Longrightarrow> b \<noteq> NaN \<Longrightarrow> c \<noteq> NaN \<Longrightarrow> \<not> fless a b \<Longrightarrow> \<not> fless b c \<Longrightarrow> \<not> fless a c"
  by (cases a; cases b; cases c) simp_all

lemma fless_antisym:
  "a \<noteq> NaN \<Longrightarrow> b \<noteq> NaN \<Longrightarrow> \<not> fless a b \<Longrightarrow> \<not> fless b a \<Longrightarrow> a = b"
  by (cases a; cases b) simp_all

lemma fless_asym: "fless a b \<Longrightarrow> \<not> fless b a"
  by (cases a; cases b) simp_all

lemma foldl_fmax_greatest:
  "NaN \<notin> set (x # xs) \<Longrightarrow>
     foldl fmax x xs \<in> set (x # xs) \<and> (\<forall>y\<in>set (x # xs). \<not> fless (foldl fmax x xs) y)"
proof (induction xs arbitrary: x)
  case Nil
  then show ?case by (cases x) simp_all
next
  case (Cons y ys)
  let ?z = "fmax x y"
  let ?m = "foldl fmax ?z ys"
  from Cons.prems have xy: "x \<noteq> NaN" "y \<noteq> NaN" and ys: "NaN \<notin> set ys" by auto
  have z: "?z = x \<or> ?z = y" by (simp add: fmax_def)
  with xy have zn: "?z \<noteq> NaN" by auto
  have zx: "\<not> fless ?z x" and zy: "\<not> fless ?z y"
    using xy by (auto simp: fmax_def dest: fless_asym)
  from zn ys have "NaN \<notin> set (?z # ys)" by simp
  from Cons.IH [OF this]
  have mem: "?m \<in> set (?z # ys)" and top: "\<forall>v\<in>set (?z # ys). \<not> fless ?m v" by simp_all
  from mem zn ys have mn: "?m \<noteq> NaN" by auto
  from top have mz: "\<not> fless ?m ?z" by simp
  have "\<not> fless ?m x" using fless_not_trans [OF mn zn xy(1) mz zx] .
  moreover have "\<not> fless ?m y" using fless_not_trans [OF mn zn xy(2) mz zy] .
  moreover from mem z have "?m \<in> set (x # y # ys)" by auto
  ultimately show ?case using top by simp
qed

lemma amax_is_sample_max: "xs \<noteq> [] \<Longrightarrow> \<exists>m. amax xs = Inr m \<and> is_sample_max xs m"
proof -
  assume "xs \<noteq> []"
  then obtain x rest where xs: "xs = x # rest" by (cases xs) auto
  have "is_sample_max (x # rest) (foldl fmax x rest)"
  proof (cases "NaN \<in> set (x # rest)")
    case True
    then show ?thesis using foldl_fmax_has_NaN [OF True] by (simp only: is_sample_max_def if_True)
  next
    case False
    then show ?thesis using foldl_fmax_greatest [OF False] by (auto simp: is_sample_max_def)
  qed
  then show ?thesis by (simp add: xs amax_def)
qed

lemma is_sample_max_unique:
  assumes "is_sample_max xs m" "is_sample_max xs m'"
  shows "m = m'"
proof (cases "NaN \<in> set xs")
  case True
  with assms show ?thesis by (simp add: is_sample_max_def)
next
  case False
  with assms have a: "m \<in> set xs" "m' \<in> set xs" "\<not> fless m m'" "\<not> fless m' m"
    by (simp_all add: is_sample_max_def)
  with False have "m \<noteq> NaN" "m' \<noteq> NaN" by auto
  then show ?thesis using a(3,4) by (rule fless_antisym)
qed

lemma is_sample_max_amax:
  assumes "is_sample_max xs m"
  shows "amax xs = Inr m"
proof -
  from assms have "xs \<noteq> []" by (auto simp: is_sample_max_def split: if_splits)
  from amax_is_sample_max [OF this] obtain m' where m': "amax xs = Inr m'" "is_sample_max xs m'"
    by blast
  from is_sample_max_unique [OF assms m'(2)] m'(1) show ?thesis by simp
qed

lemma task_total:
  assumes "slice1 \<noteq> []"
    and "\<forall>m. is_sample_max (map (\<lambda>im. im ! k ! j) slice1) m
            \<longrightarrow> regular_fit cf fn T_train (map (\<lambda>im. im ! k ! j) slice1) m"
  shows "\<exists>p. task cf fn T_train slice1 k j = Inr p \<and> length p = npar fn"
proof -
  let ?pts = "map (\<lambda>im. im ! k ! j) slice1"
  from assms(1) obtain m where m: "amax ?pts = Inr m" and sm: "is_sample_max ?pts m"
    using amax_is_sample_max [of ?pts] by auto
  from assms(2) sm have "regular_fit cf fn T_train ?pts m" by blast
  then consider
      "cf fn T_train ?pts (bounds_spec fn m) 1000 = Inl RuntimeError"
    | p where "cf fn T_train ?pts (bounds_spec fn m) 1000 = Inr p" "length p = npar fn"
    unfolding regular_fit_def by (auto split: sum.splits)
  then show ?thesis
  proof cases
    case 1
    from task_not_converged [where cf = cf and k = k and j = j and ?slice1.0 = slice1, OF m 1] show ?thesis
      by (cases fn) (simp_all add: sentinel_def npar_def)
  next
    case 2
    from task_converged [where cf = cf and k = k and j = j and ?slice1.0 = slice1, OF m 2(1)] 2(2)
    show ?thesis by simp
  qed
qed

lemma fit_rows_ok:
  assumes tasks: "\<forall>k\<in>set ks. \<forall>j<w. \<exists>p. task cf fn T_train slice1 k j = Inr p \<and> length p = n"
    and n: "3 \<le> n" and w: "0 < w"
  shows "fit_rows cf fn T_train slice1 w ks (Tl, Ml, Cl) =
           Inr (Tl @ map (\<lambda>k. map (\<lambda>j. projr (task cf fn T_train slice1 k j) ! 0) [0..<w]) ks,
                Ml @ map (\<lambda>k. map (\<lambda>j. projr (task cf fn T_train slice1 k j) ! 1) [0..<w]) ks,
                Cl @ map (\<lambda>k. map (\<lambda>j. projr (task cf fn T_train slice1 k j) ! 2) [0..<w]) ks)"
  using tasks
proof (induction ks arbitrary: Tl Ml Cl)
  case Nil
  then show ?case by simp
next
  case (Cons k ks)
  let ?rs = "map (task cf fn T_train slice1 k) [0..<w]"
  let ?result = "map projr ?rs"
  from Cons.prems have row: "\<forall>j<w. \<exists>p. task cf fn T_train slice1 k j = Inr p \<and> length p = n"
    by simp
  then have g: "gather ?rs = Inr ?result" by (intro gather_all_Inr) auto
  have ne: "?result \<noteq> []" using w by simp
  have len: "\<forall>p\<in>set ?result. length p = n" using row by auto
  have c: "column c ?result = Inr (map (\<lambda>p. p ! c) ?result)" if "c < 3" for c
    using that n by (intro column_ok [OF ne len]) simp
  have c0: "column 0 ?result = Inr (map (\<lambda>j. projr (task cf fn T_train slice1 k j) ! 0) [0..<w])"
    and c1: "column (Suc 0) ?result
               = Inr (map (\<lambda>j. projr (task cf fn T_train slice1 k j) ! Suc 0) [0..<w])"
    and c2: "column 2 ?result = Inr (map (\<lambda>j. projr (task cf fn T_train slice1 k j) ! 2) [0..<w])"
    using c [of 0] c [of 1] c [of 2] by (simp_all add: comp_def)
  from Cons.prems have "\<forall>k\<in>set ks. \<forall>j<w. \<exists>p. task cf fn T_train slice1 k j = Inr p \<and> length p = n"
    by simp
  from Cons.IH [OF this] show ?case
    by (simp add: g c0 c1 c2 del: map_map)
qed

lemma array3_member:
  assumes "is_array3 a" "shape3 a = (n, h, w)" "im \<in> set a"
  shows "length im = h \<and> ncols im = w"
proof -
  from assms(3) obtain x xs where a: "a = x # xs" by (cases a) auto
  with assms(2) have h: "h = length x" and w: "w = ncols x" by (simp_all add: shape3_def)
  from assms(1,2) have r: "\<forall>im\<in>set a. rect h w im" by (simp add: is_array3_def)
  with assms(3) have im: "length im = h" "\<forall>row\<in>set im. length row = w" by (auto simp: rect_def)
  show ?thesis
  proof (cases im)
    case Nil
    with im(1) h have "x = []" by simp
    with w Nil im(1) show ?thesis by (simp add: ncols_def)
  next
    case (Cons row rows)
    with im show ?thesis by (simp add: ncols_def)
  qed
qed

lemma length_run_slice:
  assumes "0 < nE" "i < length stack div nE"
  shows "length (run_slice stack nE i) = nE"
proof -
  have "nE * Suc i \<le> nE * (length stack div nE)" using assms by (intro mult_le_mono2) simp
  also have "\<dots> \<le> length stack" by simp
  finally show ?thesis by (simp add: run_slice_def)
qed

lemma shape3_run_slice:
  assumes "is_array3 stack" "shape3 stack = (n, h, w)" "0 < nE" "i < length stack div nE"
  shows "shape3 (run_slice stack nE i) = (nE, h, w)"
proof -
  let ?sl = "run_slice stack nE i"
  have len: "length ?sl = nE" using assms(3,4) by (rule length_run_slice)
  with assms(3) obtain x xs where sl: "?sl = x # xs" by (cases ?sl) auto
  have "set ?sl \<subseteq> set stack"
    unfolding run_slice_def by (meson set_take_subset set_drop_subset subset_trans)
  with sl have "x \<in> set stack" by auto
  from array3_member [OF assms(1,2) this] sl len show ?thesis by (simp add: shape3_def)
qed

lemma maps_step_ok:
  assumes solver: "\<forall>k<h. \<forall>j<w. \<forall>m.
        is_sample_max (map (\<lambda>im. im ! k ! j)
                         (run_slice (arrays3 s ! images) (length T_train) i)) m
        \<longrightarrow> regular_fit cf fn T_train
              (map (\<lambda>im. im ! k ! j) (run_slice (arrays3 s ! images) (length T_train) i)) m"
    and arr: "is_array3 (arrays3 s ! images)" "shape3 (arrays3 s ! images) = (n, h, w)"
    and w: "0 < w" and nE: "0 < length T_train"
    and i: "i < length (arrays3 s ! images) div length T_train"
  shows "maps_step cf fn T_train images i (s, Tm, Mm, Cm) =
           ((s\<lparr>arrays2 := arrays2 s @
                 [param_map cf fn T_train (run_slice (arrays3 s ! images) (length T_train) i) 0 h w,
                  param_map cf fn T_train (run_slice (arrays3 s ! images) (length T_train) i) 1 h w,
                  param_map cf fn T_train (run_slice (arrays3 s ! images) (length T_train) i) 2 h w]\<rparr>,
             Tm @ [length (arrays2 s)], Mm @ [length (arrays2 s) + 1],
             Cm @ [length (arrays2 s) + 2]), None)"
proof -
  let ?nE = "length T_train"
  let ?sl = "run_slice (arrays3 s ! images) ?nE i"
  have sl: "take ?nE (drop (?nE * i) (arrays3 s ! images)) = ?sl"
    by (simp add: run_slice_def)
  have sh: "shape3 ?sl = (?nE, h, w)" using arr nE i by (rule shape3_run_slice)
  have ne: "?sl \<noteq> []" using length_run_slice [OF nE i] nE by auto
  have n3: "3 \<le> npar fn" by (cases fn) (simp_all add: npar_def)
  have "\<forall>k\<in>set [0..<h]. \<forall>j<w. \<exists>p. task cf fn T_train ?sl k j = Inr p \<and> length p = npar fn"
  proof (intro ballI allI impI)
    fix k j assume "k \<in> set [0..<h]" "j < w"
    with solver have "\<forall>m. is_sample_max (map (\<lambda>im. im ! k ! j) ?sl) m
        \<longrightarrow> regular_fit cf fn T_train (map (\<lambda>im. im ! k ! j) ?sl) m" by simp
    with ne show "\<exists>p. task cf fn T_train ?sl k j = Inr p \<and> length p = npar fn"
      by (rule task_total)
  qed
  from fit_rows_ok [OF this n3 w, of "[]" "[]" "[]"]
  show ?thesis
    by (simp add: maps_step_def sl sh param_map_def Let_def)
qed

lemma runs_loop_ok:
  assumes arr: "is_array3 (arrays3 s ! images)" "shape3 (arrays3 s ! images) = (n, h, w)"
    and w: "0 < w" and nE: "0 < length T_train"
    and "is": "\<forall>i\<in>set is. i < length (arrays3 s ! images) div length T_train"
    and solver: "\<forall>i\<in>set is. \<forall>k<h. \<forall>j<w. \<forall>m.
        is_sample_max (map (\<lambda>im. im ! k ! j)
                         (run_slice (arrays3 s ! images) (length T_train) i)) m
        \<longrightarrow> regular_fit cf fn T_train
              (map (\<lambda>im. im ! k ! j) (run_slice (arrays3 s ! images) (length T_train) i)) m"
  shows "for_each (maps_step cf fn T_train images) is (s, Tm, Mm, Cm) =
     ((s\<lparr>arrays2 := arrays2 s @ concat (map (\<lambda>i.
           [param_map cf fn T_train (run_slice (arrays3 s ! images) (length T_train) i) 0 h w,
            param_map cf fn T_train (run_slice (arrays3 s ! images) (length T_train) i) 1 h w,
            param_map cf fn T_train (run_slice (arrays3 s ! images) (length T_train) i) 2 h w]) is)\<rparr>,
       Tm @ map (\<lambda>q. length (arrays2 s) + 3 * q) [0..<length is],
       Mm @ map (\<lambda>q. length (arrays2 s) + 3 * q + 1) [0..<length is],
       Cm @ map (\<lambda>q. length (arrays2 s) + 3 * q + 2) [0..<length is]), None)"
  using arr "is" solver
proof (induction "is" arbitrary: s Tm Mm Cm)
  case Nil
  then show ?case by simp
next
  case (Cons i "is")
  let ?stack = "arrays3 s ! images"
  let ?new = "[param_map cf fn T_train (run_slice ?stack (length T_train) i) 0 h w,
               param_map cf fn T_train (run_slice ?stack (length T_train) i) 1 h w,
               param_map cf fn T_train (run_slice ?stack (length T_train) i) 2 h w]"
  let ?s1 = "s\<lparr>arrays2 := arrays2 s @ ?new\<rparr>"
  have i: "i < length ?stack div length T_train" using Cons.prems(3) by simp
  have sv: "\<forall>k<h. \<forall>j<w. \<forall>m.
        is_sample_max (map (\<lambda>im. im ! k ! j) (run_slice ?stack (length T_train) i)) m
        \<longrightarrow> regular_fit cf fn T_train
              (map (\<lambda>im. im ! k ! j) (run_slice ?stack (length T_train) i)) m"
    using Cons.prems(4) by simp
  note st = maps_step_ok [OF sv Cons.prems(1,2) w nE i, of Tm Mm Cm]
  have a1: "is_array3 (arrays3 ?s1 ! images)" "shape3 (arrays3 ?s1 ! images) = (n, h, w)"
    "\<forall>i\<in>set is. i < length (arrays3 ?s1 ! images) div length T_train"
    "\<forall>i\<in>set is. \<forall>k<h. \<forall>j<w. \<forall>m.
        is_sample_max (map (\<lambda>im. im ! k ! j)
                         (run_slice (arrays3 ?s1 ! images) (length T_train) i)) m
        \<longrightarrow> regular_fit cf fn T_train
              (map (\<lambda>im. im ! k ! j) (run_slice (arrays3 ?s1 ! images) (length T_train) i)) m"
    using Cons.prems by simp_all
  note ih = Cons.IH [OF a1, of "Tm @ [length (arrays2 s)]" "Mm @ [length (arrays2 s) + 1]"
      "Cm @ [length (arrays2 s) + 2]"]
  have "for_each (maps_step cf fn T_train images) (i # is) (s, Tm, Mm, Cm)
      = for_each (maps_step cf fn T_train images) is
          (?s1, Tm @ [length (arrays2 s)], Mm @ [length (arrays2 s) + 1],
           Cm @ [length (arrays2 s) + 2])"
    by (subst for_each.simps) (simp only: st prod.case option.case)
  also note ih
  finally show ?case
    by (simp add: map_upt_Suc add.assoc add.commute add.left_commute del: upt_Suc)
qed

lemma calculate_maps_ok:
  assumes solver: "\<forall>i<n div length T_train. \<forall>k<h. \<forall>j<w. \<forall>m.
        is_sample_max (map (\<lambda>im. im ! k ! j)
                         (run_slice (arrays3 s ! images) (length T_train) i)) m
        \<longrightarrow> regular_fit cf fn T_train
              (map (\<lambda>im. im ! k ! j) (run_slice (arrays3 s ! images) (length T_train) i)) m"
    and arr: "is_array3 (arrays3 s ! images)" "shape3 (arrays3 s ! images) = (n, h, w)"
    and w: "0 < w" and nE: "0 < length T_train"
  shows "calculate_maps cf images T_train fn s =
     (s\<lparr>arrays2 := arrays2 s @ concat (map (\<lambda>i.
           [param_map cf fn T_train (run_slice (arrays3 s ! images) (length T_train) i) 0 h w,
            param_map cf fn T_train (run_slice (arrays3 s ! images) (length T_train) i) 1 h w,
            param_map cf fn T_train (run_slice (arrays3 s ! images) (length T_train) i) 2 h w])
           [0..<n div length T_train])\<rparr>,
      Inr (map (\<lambda>q. length (arrays2 s) + 3 * q) [0..<n div length T_train],
           map (\<lambda>q. length (arrays2 s) + 3 * q + 1) [0..<n div length T_train],
           map (\<lambda>q. length (arrays2 s) + 3 * q + 2) [0..<n div length T_train]))"
proof -
  have nz: "arrays3 s ! images \<noteq> []" using arr(2) w by (auto simp: shape3_def)
  then have n: "length (arrays3 s ! images) = n"
    using arr(2) by (cases "arrays3 s ! images") (simp_all add: shape3_def)
  have "\<forall>i\<in>set [0..<n div length T_train]. i < length (arrays3 s ! images) div length T_train"
    by (simp add: n)
  moreover have "\<forall>i\<in>set [0..<n div length T_train]. \<forall>k<h. \<forall>j<w. \<forall>m.
        is_sample_max (map (\<lambda>im. im ! k ! j)
                         (run_slice (arrays3 s ! images) (length T_train) i)) m
        \<longrightarrow> regular_fit cf fn T_train
              (map (\<lambda>im. im ! k ! j) (run_slice (arrays3 s ! images) (length T_train) i)) m"
    using solver by simp
  ultimately show ?thesis
    using runs_loop_ok [OF arr w nE, of "[0..<n div length T_train]" cf fn "[]" "[]" "[]"] nE
    by (simp add: calculate_maps_def n)
qed

lemma calculate_maps_pixels:
  assumes solver: "\<forall>i<n div length T_train. \<forall>k<h. \<forall>j<w. \<forall>m.
        is_sample_max (map (\<lambda>im. im ! k ! j)
                         (run_slice (arrays3 s ! images) (length T_train) i)) m
        \<longrightarrow> regular_fit cf fn T_train
              (map (\<lambda>im. im ! k ! j) (run_slice (arrays3 s ! images) (length T_train) i)) m"
    and arr: "is_array3 (arrays3 s ! images)" "shape3 (arrays3 s ! images) = (n, h, w)"
    and w: "0 < w" and nE: "0 < length T_train"
  shows "\<exists>s' T_maps Momaps Cmaps.
           calculate_maps cf images T_train fn s = (s', Inr (T_maps, Momaps, Cmaps))
         \<and> length T_maps = n div length T_train
         \<and> length Momaps = n div length T_train
         \<and> length Cmaps = n div length T_train
         \<and> (\<forall>i<n div length T_train. \<forall>k<h. \<forall>j<w. \<forall>pmax.
               is_sample_max (map (\<lambda>im. im ! k ! j)
                                (run_slice (arrays3 s ! images) (length T_train) i)) pmax
             \<longrightarrow> (cf fn T_train
                   (map (\<lambda>im. im ! k ! j) (run_slice (arrays3 s ! images) (length T_train) i))
                   (bounds_spec fn pmax) 1000 = Inl RuntimeError
                 \<longrightarrow> task cf fn T_train (run_slice (arrays3 s ! images) (length T_train) i) k j
                       = Inr (sentinel fn pmax)
                   \<and> arrays2 s' ! (T_maps ! i) ! k ! j = Finite 0.000001
                   \<and> arrays2 s' ! (Momaps ! i) ! k ! j = pmax
                   \<and> arrays2 s' ! (Cmaps ! i) ! k ! j = Finite 0)
               \<and> (\<forall>p. cf fn T_train
                   (map (\<lambda>im. im ! k ! j) (run_slice (arrays3 s ! images) (length T_train) i))
                   (bounds_spec fn pmax) 1000 = Inr p
                 \<longrightarrow> arrays2 s' ! (T_maps ! i) ! k ! j = p ! 0
                   \<and> arrays2 s' ! (Momaps ! i) ! k ! j = p ! 1
                   \<and> arrays2 s' ! (Cmaps ! i) ! k ! j = p ! 2))"
proof -
  let ?R = "n div length T_train"
  let ?sl = "\<lambda>i. run_slice (arrays3 s ! images) (length T_train) i"
  let ?pm = "\<lambda>i c. param_map cf fn T_train (?sl i) c h w"
  let ?new = "concat (map (\<lambda>i. [?pm i 0, ?pm i 1, ?pm i 2]) [0..<?R])"
  let ?s' = "s\<lparr>arrays2 := arrays2 s @ ?new\<rparr>"
  let ?n0 = "length (arrays2 s)"
  note run = calculate_maps_ok [OF solver arr w nE]
  have cell: "arrays2 ?s' ! (?n0 + 3 * i + c) = ?pm i c" if "i < ?R" "c < 3" for i c
  proof -
    have "?new ! (i * 3 + c) = map (\<lambda>i. [?pm i 0, ?pm i 1, ?pm i 2]) [0..<?R] ! i ! c"
      using that by (intro nth_concat_uniform) auto
    also have "\<dots> = [?pm i 0, ?pm i 1, ?pm i 2] ! c" using that by simp
    also have "\<dots> = ?pm i c"
    proof -
      from that(2) consider "c = 0" | "c = 1" | "c = 2" by linarith
      then show ?thesis by cases simp_all
    qed
    finally have "?new ! (i * 3 + c) = ?pm i c" .
    moreover have "arrays2 ?s' ! (?n0 + 3 * i + c) = ?new ! (i * 3 + c)"
      by (simp add: nth_append mult.commute add.assoc)
    ultimately show ?thesis by simp
  qed
  have px: "arrays2 ?s' ! (?n0 + 3 * i + c) ! k ! j = projr (task cf fn T_train (?sl i) k j) ! c"
    if "i < ?R" "c < 3" "k < h" "j < w" for i c k j
    using that cell [OF that(1,2)] by (simp add: param_map_def)
  have pxs: "arrays2 ?s' ! (?n0 + 3 * i) ! k ! j = q ! 0
        \<and> arrays2 ?s' ! (?n0 + 3 * i + 1) ! k ! j = q ! 1
        \<and> arrays2 ?s' ! (?n0 + 3 * i + 2) ! k ! j = q ! 2"
    if "i < ?R" "k < h" "j < w" and t: "task cf fn T_train (?sl i) k j = Inr q" for i k j q
  proof -
    have "arrays2 ?s' ! (?n0 + 3 * i + 0) ! k ! j = projr (task cf fn T_train (?sl i) k j) ! 0"
      "arrays2 ?s' ! (?n0 + 3 * i + 1) ! k ! j = projr (task cf fn T_train (?sl i) k j) ! 1"
      "arrays2 ?s' ! (?n0 + 3 * i + 2) ! k ! j = projr (task cf fn T_train (?sl i) k j) ! 2"
      using that(1-3) by (intro px; simp)+
    then show ?thesis unfolding t by (simp del: nth_append_length_plus)
  qed
  have sent: "task cf fn T_train (?sl i) k j = Inr (sentinel fn pmax)
        \<and> arrays2 ?s' ! (?n0 + 3 * i) ! k ! j = Finite 0.000001
        \<and> arrays2 ?s' ! (?n0 + 3 * i + 1) ! k ! j = pmax
        \<and> arrays2 ?s' ! (?n0 + 3 * i + 2) ! k ! j = Finite 0"
    if "i < ?R" "k < h" "j < w"
      and m: "is_sample_max (map (\<lambda>im. im ! k ! j) (?sl i)) pmax"
      and f: "cf fn T_train (map (\<lambda>im. im ! k ! j) (?sl i)) (bounds_spec fn pmax) 1000
                = Inl RuntimeError"
    for i k j pmax
  proof -
    have t: "task cf fn T_train (?sl i) k j = Inr (sentinel fn pmax)"
      using task_not_converged [where cf = cf and k = k and j = j, OF is_sample_max_amax [OF m] f] .
    have "sentinel fn pmax ! 0 = Finite 0.000001" "sentinel fn pmax ! 1 = pmax"
      "sentinel fn pmax ! 2 = Finite 0"
      by (simp_all add: sentinel_def split: model.split)
    with pxs [OF that(1-3) t] t show ?thesis by simp
  qed
  have conv: "arrays2 ?s' ! (?n0 + 3 * i) ! k ! j = p ! 0
        \<and> arrays2 ?s' ! (?n0 + 3 * i + 1) ! k ! j = p ! 1
        \<and> arrays2 ?s' ! (?n0 + 3 * i + 2) ! k ! j = p ! 2"
    if "i < ?R" "k < h" "j < w"
      and m: "is_sample_max (map (\<lambda>im. im ! k ! j) (?sl i)) pmax"
      and f: "cf fn T_train (map (\<lambda>im. im ! k ! j) (?sl i)) (bounds_spec fn pmax) 1000 = Inr p"
    for i k j pmax p
  proof -
    have t: "task cf fn T_train (?sl i) k j = Inr p"
      using task_converged [where cf = cf and k = k and j = j, OF is_sample_max_amax [OF m] f] .
    from pxs [OF that(1-3) t] show ?thesis .
  qed
  let ?T = "map (\<lambda>q. ?n0 + 3 * q) [0..<?R]"
  let ?M = "map (\<lambda>q. ?n0 + 3 * q + 1) [0..<?R]"
  let ?C = "map (\<lambda>q. ?n0 + 3 * q + 2) [0..<?R]"
  have len: "length ?T = ?R" "length ?M = ?R" "length ?C = ?R" by simp_all
  have main: "\<forall>i<?R. \<forall>k<h. \<forall>j<w. \<forall>pmax.
               is_sample_max (map (\<lambda>im. im ! k ! j) (?sl i)) pmax
             \<longrightarrow> (cf fn T_train (map (\<lambda>im. im ! k ! j) (?sl i)) (bounds_spec fn pmax) 1000
                   = Inl RuntimeError
                 \<longrightarrow> task cf fn T_train (?sl i) k j = Inr (sentinel fn pmax)
                   \<and> arrays2 ?s' ! (?T ! i) ! k ! j = Finite 0.000001
                   \<and> arrays2 ?s' ! (?M ! i) ! k ! j = pmax
                   \<and> arrays2 ?s' ! (?C ! i) ! k ! j = Finite 0)
               \<and> (\<forall>p. cf fn T_train (map (\<lambda>im. im ! k ! j) (?sl i)) (bounds_spec fn pmax) 1000
                   = Inr p
                 \<longrightarrow> arrays2 ?s' ! (?T ! i) ! k ! j = p ! 0
                   \<and> arrays2 ?s' ! (?M ! i) ! k ! j = p ! 1
                   \<and> arrays2 ?s' ! (?C ! i) ! k ! j = p ! 2)"
  proof (intro allI impI)
    fix i k j pmax
    assume a: "i < ?R" "k < h" "j < w"
      "is_sample_max (map (\<lambda>im. im ! k ! j) (?sl i)) pmax"
    have idx: "?T ! i = ?n0 + 3 * i" "?M ! i = ?n0 + 3 * i + 1" "?C ! i = ?n0 + 3 * i + 2"
      using a(1) by simp_all
    have one: "cf fn T_train (map (\<lambda>im. im ! k ! j) (?sl i)) (bounds_spec fn pmax) 1000
                 = Inl RuntimeError
               \<longrightarrow> task cf fn T_train (?sl i) k j = Inr (sentinel fn pmax)
                 \<and> arrays2 ?s' ! (?T ! i) ! k ! j = Finite 0.000001
                 \<and> arrays2 ?s' ! (?M ! i) ! k ! j = pmax
                 \<and> arrays2 ?s' ! (?C ! i) ! k ! j = Finite 0"
      unfolding idx using sent [OF a] by (intro impI)
    have two: "\<forall>p. cf fn T_train (map (\<lambda>im. im ! k ! j) (?sl i)) (bounds_spec fn pmax) 1000
                 = Inr p
               \<longrightarrow> arrays2 ?s' ! (?T ! i) ! k ! j = p ! 0
                 \<and> arrays2 ?s' ! (?M ! i) ! k ! j = p ! 1
                 \<and> arrays2 ?s' ! (?C ! i) ! k ! j = p ! 2"
      unfolding idx using conv [OF a] by (intro allI impI)
    from one two
    show "(cf fn T_train (map (\<lambda>im. im ! k ! j) (?sl i)) (bounds_spec fn pmax) 1000
                   = Inl RuntimeError
                 \<longrightarrow> task cf fn T_train (?sl i) k j = Inr (sentinel fn pmax)
                   \<and> arrays2 ?s' ! (?T ! i) ! k ! j = Finite 0.000001
                   \<and> arrays2 ?s' ! (?M ! i) ! k ! j = pmax
                   \<and> arrays2 ?s' ! (?C ! i) ! k ! j = Finite 0)
               \<and> (\<forall>p. cf fn T_train (map (\<lambda>im. im ! k ! j) (?sl i)) (bounds_spec fn pmax) 1000
                   = Inr p
                 \<longrightarrow> arrays2 ?s' ! (?T ! i) ! k ! j = p ! 0
                   \<and> arrays2 ?s' ! (?M ! i) ! k ! j = p ! 1
                   \<and> arrays2 ?s' ! (?C ! i) ! k ! j = p ! 2)"
      by (rule conjI)
  qed
  show ?thesis
    apply (rule exI [of _ ?s'], rule exI [of _ ?T], rule exI [of _ ?M], rule exI [of _ ?C])
    apply (intro conjI)
        apply (rule run)
       apply (rule len(1))
      apply (rule len(2))
     apply (rule len(3))
    apply (rule main)
    done
qed

lemma map_fst_two:
  "length xs = 2 \<Longrightarrow> fst (xs ! 0) = a \<Longrightarrow> fst (xs ! 1) = b \<Longrightarrow> map fst xs = [a, b]"
proof -
  assume h: "length xs = 2" "fst (xs ! 0) = a" "fst (xs ! 1) = b"
  then obtain x y where "xs = [x, y]"
    by (cases xs; cases "tl xs") auto
  with h show ?thesis by simp
qed

lemmas synth_eval = T1_function_def T2_function_def broadcast2_def shape2_def ncols_def stretch_def
  fsub_def inf_signed_def theoret_MRI_def synth_step_def amax_def fmax_def fname_def
  str_nat.simps str_int_def digit_def upt_rec model_image_def str_num_def as_float_def

text \<open>
  Claim C2. Take a stack of images with at least one column in which the regression of
  every pixel ends regularly: the solver returns its parameters or raises RuntimeError for
  not converging within the budget. Then \<open>calculate_maps\<close> returns its maps, whichever
  pixels do not converge. For a pixel that does not converge the task returns the sentinel
  (relaxation time 1e-6, the pixel's sample maximum, offset 0, and inversion efficiency 2
  for T1), and the three maps hold 1e-6, the sample maximum and 0 at that pixel; at a pixel
  that converges the three maps hold the first three fitted parameters.
\<close>

theorem fit_falls_back_to_sentinel:
  assumes "\<forall>i<n div length T_train. \<forall>k<h. \<forall>j<w. \<forall>m.
        is_sample_max (map (\<lambda>im. im ! k ! j)
                         (run_slice (arrays3 s ! images) (length T_train) i)) m
        \<longrightarrow> regular_fit cf fn T_train
              (map (\<lambda>im. im ! k ! j) (run_slice (arrays3 s ! images) (length T_train) i)) m"
    and "is_array3 (arrays3 s ! images)" and "shape3 (arrays3 s ! images) = (n, h, w)"
    and "0 < w" and "0 < length T_train"
  shows "\<exists>s' T_maps Momaps Cmaps.
           calculate_maps cf images T_train fn s = (s', Inr (T_maps, Momaps, Cmaps))
         \<and> length T_maps = n div length T_train
         \<and> length Momaps = n div length T_train
         \<and> length Cmaps = n div length T_train
         \<and> (\<forall>i<n div length T_train. \<forall>k<h. \<forall>j<w. \<forall>pmax.
               is_sample_max (map (\<lambda>im. im ! k ! j)
                                (run_slice (arrays3 s ! images) (length T_train) i)) pmax
             \<longrightarrow> (cf fn T_train
                   (map (\<lambda>im. im ! k ! j) (run_slice (arrays3 s ! images) (length T_train) i))
                   (bounds_spec fn pmax) 1000 = Inl RuntimeError
                 \<longrightarrow> task cf fn T_train (run_slice (arrays3 s ! images) (length T_train) i) k j
                       = Inr (sentinel fn pmax)
                   \<and> arrays2 s' ! (T_maps ! i) ! k ! j = Finite 0.000001
                   \<and> arrays2 s' ! (Momaps ! i) ! k ! j = pmax
                   \<and> arrays2 s' ! (Cmaps ! i) ! k ! j = Finite 0)
               \<and> (\<forall>p. cf fn T_train
                   (map (\<lambda>im. im ! k ! j) (run_slice (arrays3 s ! images) (length T_train) i))
                   (bounds_spec fn pmax) 1000 = Inr p
                 \<longrightarrow> arrays2 s' ! (T_maps ! i) ! k ! j = p ! 0
                   \<and> arrays2 s' ! (Momaps ! i) ! k ! j = p ! 1
                   \<and> arrays2 s' ! (Cmaps ! i) ! k ! j = p ! 2))"
  using assms by (rule calculate_maps_pixels)

text \<open>
  The theorem at a run of three images of one row and two pixels. The first pixel has the
  samples 3, 7, 5 and its regression does not converge; the second has the samples 1, 2, 4
  and its regression returns 50, 4, 0.5, 2. The call returns; the maps hold the sentinel
  with the maximum 7 at the first pixel and the fitted values at the second.
\<close>

theorem fit_falls_back_to_sentinel_witness:
  "\<exists>s' T_maps Momaps Cmaps.
      calculate_maps
        (\<lambda>f x y b n. if y = [Finite 3, Finite 7, Finite 5] then Inl RuntimeError
                      else Inr [Finite 50, Finite 4, Finite 0.5, Finite 2])
        0 [Finite 10, Finite 20, Finite 30] T1
        \<lparr>arrays3 = [[[[Finite 3, Finite 1]], [[Finite 7, Finite 2]], [[Finite 5, Finite 4]]]],
         arrays2 = [], files = []\<rparr> = (s', Inr (T_maps, Momaps, Cmaps))
    \<and> arrays2 s' ! (T_maps ! 0) ! 0 ! 0 = Finite 0.000001
    \<and> arrays2 s' ! (Momaps ! 0) ! 0 ! 0 = Finite 7
    \<and> arrays2 s' ! (Cmaps ! 0) ! 0 ! 0 = Finite 0
    \<and> arrays2 s' ! (T_maps ! 0) ! 0 ! 1 = Finite 50
    \<and> arrays2 s' ! (Momaps ! 0) ! 0 ! 1 = Finite 4
    \<and> arrays2 s' ! (Cmaps ! 0) ! 0 ! 1 = Finite 0.5"
proof -
  let ?cf = "\<lambda>(f::model) (x::npfloat list) (y::npfloat list) (b::npfloat list \<times> npfloat list)
                (n::nat). if y = [Finite 3, Finite 7, Finite 5] then Inl RuntimeError
                          else (Inr [Finite 50, Finite 4, Finite 0.5, Finite 2]
                                  :: pyerr + npfloat list)"
  let ?T = "[Finite 10, Finite 20, Finite 30]"
  let ?stack = "[[[Finite 3, Finite 1]], [[Finite 7, Finite 2]], [[Finite 5, Finite 4]]]"
  let ?s = "\<lparr>arrays3 = [?stack], arrays2 = [], files = []\<rparr>"
  have sl: "run_slice (arrays3 ?s ! 0) (length ?T) 0 = ?stack" by (simp add: run_slice_def)
  have g: "\<forall>i<3 div length ?T. \<forall>k<1. \<forall>j<2. \<forall>m.
        is_sample_max (map (\<lambda>im. im ! k ! j) (run_slice (arrays3 ?s ! 0) (length ?T) i)) m
        \<longrightarrow> regular_fit ?cf T1 ?T
              (map (\<lambda>im. im ! k ! j) (run_slice (arrays3 ?s ! 0) (length ?T) i)) m"
    by (simp add: regular_fit_def npar_def)
  have h: "is_array3 (arrays3 ?s ! 0)" "shape3 (arrays3 ?s ! 0) = (3, 1, 2)" "(0::nat) < 2"
    "0 < length ?T"
    by (simp_all add: is_array3_def shape3_def rect_def ncols_def)
  from fit_falls_back_to_sentinel [OF g h] obtain s' T_maps Momaps Cmaps where
    r: "calculate_maps ?cf 0 ?T T1 ?s = (s', Inr (T_maps, Momaps, Cmaps))"
    and p: "\<forall>i<3 div length ?T. \<forall>k<1. \<forall>j<2. \<forall>pmax.
               is_sample_max (map (\<lambda>im. im ! k ! j)
                                (run_slice (arrays3 ?s ! 0) (length ?T) i)) pmax
             \<longrightarrow> (?cf T1 ?T
                   (map (\<lambda>im. im ! k ! j) (run_slice (arrays3 ?s ! 0) (length ?T) i))
                   (bounds_spec T1 pmax) 1000 = Inl RuntimeError
                 \<longrightarrow> task ?cf T1 ?T (run_slice (arrays3 ?s ! 0) (length ?T) i) k j
                       = Inr (sentinel T1 pmax)
                   \<and> arrays2 s' ! (T_maps ! i) ! k ! j = Finite 0.000001
                   \<and> arrays2 s' ! (Momaps ! i) ! k ! j = pmax
                   \<and> arrays2 s' ! (Cmaps ! i) ! k ! j = Finite 0)
               \<and> (\<forall>p. ?cf T1 ?T
                   (map (\<lambda>im. im ! k ! j) (run_slice (arrays3 ?s ! 0) (length ?T) i))
                   (bounds_spec T1 pmax) 1000 = Inr p
                 \<longrightarrow> arrays2 s' ! (T_maps ! i) ! k ! j = p ! 0
                   \<and> arrays2 s' ! (Momaps ! i) ! k ! j = p ! 1
                   \<and> arrays2 s' ! (Cmaps ! i) ! k ! j = p ! 2)"
    by (elim exE conjE) (rule that; assumption)
  have m0: "is_sample_max (map (\<lambda>im. im ! 0 ! 0) (run_slice (arrays3 ?s ! 0) (length ?T) 0))
              (Finite 7)"
    unfolding sl by (simp add: is_sample_max_def)
  have m1: "is_sample_max (map (\<lambda>im. im ! 0 ! 1) (run_slice (arrays3 ?s ! 0) (length ?T) 0))
              (Finite 4)"
    unfolding sl by (simp add: is_sample_max_def)
  have i: "(0::nat) < 3 div length ?T" "(0::nat) < 1" "(0::nat) < 2" "(1::nat) < 2" by simp_all
  have f0: "?cf T1 ?T (map (\<lambda>im. im ! 0 ! 0) (run_slice (arrays3 ?s ! 0) (length ?T) 0))
              (bounds_spec T1 (Finite 7)) 1000 = Inl RuntimeError"
    unfolding sl by simp
  have f1: "?cf T1 ?T (map (\<lambda>im. im ! 0 ! 1) (run_slice (arrays3 ?s ! 0) (length ?T) 0))
              (bounds_spec T1 (Finite 4)) 1000
            = Inr [Finite 50, Finite 4, Finite 0.5, Finite 2]"
    unfolding sl by simp
  from p [rule_format, OF i(1) i(2) i(3) m0, THEN conjunct1, rule_format, OF f0]
  have a: "arrays2 s' ! (T_maps ! 0) ! 0 ! 0 = Finite 0.000001"
    "arrays2 s' ! (Momaps ! 0) ! 0 ! 0 = Finite 7"
    "arrays2 s' ! (Cmaps ! 0) ! 0 ! 0 = Finite 0"
    by simp_all
  from p [rule_format, OF i(1) i(2) i(4) m1, THEN conjunct2, rule_format, OF f1]
  have b: "arrays2 s' ! (T_maps ! 0) ! 0 ! 1 = Finite 50"
    "arrays2 s' ! (Momaps ! 0) ! 0 ! 1 = Finite 4"
    "arrays2 s' ! (Cmaps ! 0) ! 0 ! 1 = Finite 0.5"
    by simp_all
  show ?thesis
    apply (rule exI [of _ s'], rule exI [of _ T_maps], rule exI [of _ Momaps],
        rule exI [of _ Cmaps])
    apply (intro conjI)
          apply (rule r)
         apply (rule a(1))
        apply (rule a(2))
       apply (rule a(3))
      apply (rule b(1))
     apply (rule b(2))
    apply (rule b(3))
    done
qed

text \<open>
  Claim C7. Let \<open>pmax\<close> be the sample maximum of a pixel: one of its samples, with no
  sample above it. The bounds computed by the task are those of the specification for the
  model at \<open>pmax\<close>, and they are the bounds of the regression: what the solver returns
  for them on the pixel's samples is what the task returns, and the task depends on the
  solver through this one call only.
\<close>

theorem bounds_from_pixel_maximum:
  assumes "is_sample_max (map (\<lambda>im. im ! k ! j) slice1) pmax"
  shows "amax (map (\<lambda>im. im ! k ! j) slice1) = Inr pmax
       \<and> bounds fn pmax = bounds_spec fn pmax
       \<and> (\<forall>p. cf fn T_train (map (\<lambda>im. im ! k ! j) slice1) (bounds_spec fn pmax) 1000 = Inr p
              \<longrightarrow> task cf fn T_train slice1 k j = Inr p)
       \<and> (cf fn T_train (map (\<lambda>im. im ! k ! j) slice1) (bounds_spec fn pmax) 1000
            = cf' fn T_train (map (\<lambda>im. im ! k ! j) slice1) (bounds_spec fn pmax) 1000
          \<longrightarrow> task cf fn T_train slice1 k j = task cf' fn T_train slice1 k j)"
proof (intro conjI allI impI)
  show m: "amax (map (\<lambda>im. im ! k ! j) slice1) = Inr pmax"
    using assms by (rule is_sample_max_amax)
  show "bounds fn pmax = bounds_spec fn pmax" by (rule bounds_eq_spec)
  {
    fix p
    assume "cf fn T_train (map (\<lambda>im. im ! k ! j) slice1) (bounds_spec fn pmax) 1000 = Inr p"
    with m show "task cf fn T_train slice1 k j = Inr p" by (rule task_converged)
  }
  assume "cf fn T_train (map (\<lambda>im. im ! k ! j) slice1) (bounds_spec fn pmax) 1000
            = cf' fn T_train (map (\<lambda>im. im ! k ! j) slice1) (bounds_spec fn pmax) 1000"
  with m show "task cf fn T_train slice1 k j = task cf' fn T_train slice1 k j"
    by (rule task_cong)
qed

text \<open>
  The theorem at a pixel with the samples 3, 7, 5, whose maximum 7 is neither the first
  nor the last sample. The solver returns parameters only for the T1 bounds of the
  specification at 7, lower \<open>[0.001, 6.3, -1.07, 1.85]\<close> and upper
  \<open>[7000, 15, 1.07, 2.05]\<close>, and the task returns these parameters.
\<close>

theorem bounds_from_pixel_maximum_witness:
  "bounds T1 (Finite 7) = ([Finite 0.001, Finite 6.3, Finite (- 1.07), Finite 1.85],
                           [Finite 7000, Finite 15, Finite 1.07, Finite 2.05])
   \<and> task (\<lambda>f x y b n.
           if b = ([Finite 0.001, Finite 6.3, Finite (- 1.07), Finite 1.85],
                   [Finite 7000, Finite 15, Finite 1.07, Finite 2.05])
           then Inr [Finite 1, Finite 2, Finite 3, Finite 2] else Inl ValueError)
     T1 [Finite 10, Finite 20, Finite 30] [[[Finite 3]], [[Finite 7]], [[Finite 5]]] 0 0
     = Inr [Finite 1, Finite 2, Finite 3, Finite 2]"
proof -
  let ?cf = "\<lambda>(f::model) (x::npfloat list) (y::npfloat list) b (n::nat).
           if b = ([Finite 0.001, Finite 6.3, Finite (- 1.07), Finite 1.85],
                   [Finite 7000, Finite 15, Finite 1.07, Finite 2.05])
           then Inr [Finite 1, Finite 2, Finite 3, Finite 2] else Inl ValueError"
  let ?T = "[Finite 10, Finite 20, Finite 30]"
  let ?sl = "[[[Finite 3]], [[Finite 7]], [[Finite 5]]]"
  have h: "is_sample_max (map (\<lambda>im. im ! 0 ! 0) ?sl) (Finite 7)"
    by (simp add: is_sample_max_def)
  have bs: "bounds_spec T1 (Finite 7)
      = ([Finite 0.001, Finite 6.3, Finite (- 1.07), Finite 1.85],
         [Finite 7000, Finite 15, Finite 1.07, Finite 2.05])"
    by (simp add: bounds_spec_def)
  have c: "?cf T1 ?T (map (\<lambda>im. im ! 0 ! 0) ?sl) (bounds_spec T1 (Finite 7)) 1000
             = Inr [Finite 1, Finite 2, Finite 3, Finite 2]"
    unfolding bs by simp
  note w = bounds_from_pixel_maximum [OF h, of T1 ?cf ?T]
  from w [THEN conjunct2, THEN conjunct1] bs
  have "bounds T1 (Finite 7) = ([Finite 0.001, Finite 6.3, Finite (- 1.07), Finite 1.85],
                                [Finite 7000, Finite 15, Finite 1.07, Finite 2.05])"
    by simp
  moreover from w [THEN conjunct2, THEN conjunct2, THEN conjunct1, rule_format, OF c]
  have "task ?cf T1 ?T ?sl 0 0 = Inr [Finite 1, Finite 2, Finite 3, Finite 2]" .
  ultimately show ?thesis by (rule conjI)
qed

text \<open>
  Claim C5, amended. Let the requested times be Python floats or Python ints of magnitude
  below \<open>2^63\<close>. A call that returns, for \<open>R\<close> requested times and \<open>K\<close> runs, returns
  \<open>R * K\<close> images and has written \<open>R * K\<close> files; the image and the file at position
  \<open>i * K + j\<close> are those of requested time \<open>i\<close> and run \<open>j\<close>, the file named after the run
  index \<open>j + 1\<close>, the label and \<open>str\<close> of the time. The file names are pairwise distinct
  exactly when the renderings \<open>str(T_wish[i])\<close> are (or there is no run); when every
  requested time is an \<open>int\<close>, exactly when the requested times are. So the times
  \<open>1\<close> and \<open>1.0\<close> give two names, and a time given twice gives one name twice.
\<close>

theorem synthesis_count_order_names:
  assumes "theoret_MRI fs fn T_wish T_maps Momaps Cmaps s = (s', Inr imgs)"
    and "\<forall>a\<in>set T_maps \<union> set Momaps \<union> set Cmaps. a < length (arrays2 s)"
    and "\<forall>t\<in>set T_wish. int64_range t"
  shows "length imgs = length T_wish * length Momaps
       \<and> length (files s') = length T_wish * length Momaps
       \<and> (\<forall>i<length T_wish. \<forall>j<length Momaps.
             files s' ! (i * length Momaps + j)
               = (fname j (if fn = T1 then ''TI'' else ''TE'') (str_num fs (T_wish ! i)),
                  arrays2 s' ! (imgs ! (i * length Momaps + j)))
           \<and> arrays2 s' ! (imgs ! (i * length Momaps + j))
               = stored_image fn (T_wish ! i) (arrays2 s ! (T_maps ! j))
                   (arrays2 s ! (Momaps ! j)) (arrays2 s ! (Cmaps ! j)))
       \<and> (distinct (map fst (files s'))
            \<longleftrightarrow> length Momaps = 0 \<or> distinct (map (str_num fs) T_wish))
       \<and> ((\<forall>t\<in>set T_wish. \<exists>n. t = PyInt n)
            \<longrightarrow> (distinct (map fst (files s')) \<longleftrightarrow> length Momaps = 0 \<or> distinct T_wish))"
  using theoret_MRI_count_order_names [OF assms(1) assms(2)]
    distinct_str_num_ints [of T_wish fs]
  by simp

text \<open>
  The theorem at the requested times \<open>[1, 1.0]\<close>, with a rendering that writes the float
  \<open>1.0\<close> as Python does, and at the requested times \<open>[0, 5]\<close>: in both calls the two
  files have different names.
\<close>

theorem synthesis_count_order_names_witness:
  "map fst (files (fst (theoret_MRI (\<lambda>x. if x = Finite 1 then ''1.0'' else ''nan'') T2
      [PyInt 1, PyFloat (Finite 1)] [0] [1] [2]
      \<lparr>arrays3 = [], arrays2 = [[[Finite 1]], [[Finite 1]], [[Finite 0]]], files = []\<rparr>)))
     = [''Theoretical_MRI/slice_1_TE_1ms.png'', ''Theoretical_MRI/slice_1_TE_1.0ms.png'']
   \<and> distinct (map fst (files (fst (theoret_MRI (\<lambda>x. if x = Finite 1 then ''1.0'' else ''nan'') T2
      [PyInt 1, PyFloat (Finite 1)] [0] [1] [2]
      \<lparr>arrays3 = [], arrays2 = [[[Finite 1]], [[Finite 1]], [[Finite 0]]], files = []\<rparr>))))
   \<and> distinct (map fst (files (fst (theoret_MRI (\<lambda>x. if x = Finite 1 then ''1.0'' else ''nan'') T2
      [PyInt 0, PyInt 5] [0] [1] [2]
      \<lparr>arrays3 = [], arrays2 = [[[Finite 1]], [[Finite 1]], [[Finite 0]]], files = []\<rparr>))))"
proof -
  let ?fs = "\<lambda>x. if x = Finite 1 then ''1.0'' else ''nan''"
  let ?s = "\<lparr>arrays3 = [], arrays2 = [[[Finite 1]], [[Finite 1]], [[Finite 0]]], files = []\<rparr>"
  let ?r = "theoret_MRI ?fs T2 [PyInt 1, PyFloat (Finite 1)] [0] [1] [2] ?s"
  let ?q = "theoret_MRI ?fs T2 [PyInt 0, PyInt 5] [0] [1] [2] ?s"
  have v: "\<forall>a\<in>set [0] \<union> set [1] \<union> set [2]. a < length (arrays2 ?s)" by simp
  have "snd ?r = Inr [3, 4]" by (simp add: synth_eval)
  then have run: "?r = (fst ?r, Inr [3, 4])" by (metis prod.collapse)
  have g: "\<forall>t\<in>set [PyInt 1, PyFloat (Finite 1)]. int64_range t"
    by (simp add: int64_range_def)
  note w = synthesis_count_order_names [OF run v g]
  have l: "length (files (fst ?r)) = 2"
    using w [THEN conjunct2, THEN conjunct1] by simp
  have f0: "fst (files (fst ?r) ! 0) = ''Theoretical_MRI/slice_1_TE_1ms.png''"
    using w [THEN conjunct2, THEN conjunct2, THEN conjunct1, rule_format, of 0 0]
    by (simp add: fname_def str_num_def str_int_def str_nat.simps digit_def)
  have f1: "fst (files (fst ?r) ! 1) = ''Theoretical_MRI/slice_1_TE_1.0ms.png''"
    using w [THEN conjunct2, THEN conjunct2, THEN conjunct1, rule_format, of 1 0]
    by (simp add: fname_def str_num_def str_int_def str_nat.simps digit_def)
  have names: "map fst (files (fst ?r))
      = [''Theoretical_MRI/slice_1_TE_1ms.png'', ''Theoretical_MRI/slice_1_TE_1.0ms.png'']"
    using l f0 f1 by (rule map_fst_two)
  have d: "distinct (map fst (files (fst ?r)))"
    using w [THEN conjunct2, THEN conjunct2, THEN conjunct2, THEN conjunct1]
    by (simp add: str_num_def str_int_def str_nat.simps digit_def)
  have "snd ?q = Inr [3, 4]" by (simp add: synth_eval)
  then have run': "?q = (fst ?q, Inr [3, 4])" by (metis prod.collapse)
  have g': "\<forall>t\<in>set [PyInt 0, PyInt 5]. int64_range t"
    by (simp add: int64_range_def)
  note w' = synthesis_count_order_names [OF run' v g']
  have d': "distinct (map fst (files (fst ?q)))"
    using w' [THEN conjunct2, THEN conjunct2, THEN conjunct2, THEN conjunct2] by simp
  from names d d' show ?thesis by (intro conjI)
qed

text \<open>
  Claim C5 as stated fails: a requested time given twice gives the same file name twice.
\<close>

theorem synthesis_names_counterexample:
  "snd (theoret_MRI (\<lambda>x. if x = Finite 1 then ''1.0'' else ''nan'') T2
      [PyInt 1, PyInt 1] [0] [1] [2]
      \<lparr>arrays3 = [], arrays2 = [[[Finite 1]], [[Finite 1]], [[Finite 0]]], files = []\<rparr>) = Inr [3, 4]
   \<and> \<not> distinct (map fst (files (fst (theoret_MRI
      (\<lambda>x. if x = Finite 1 then ''1.0'' else ''nan'') T2 [PyInt 1, PyInt 1] [0] [1] [2]
      \<lparr>arrays3 = [], arrays2 = [[[Finite 1]], [[Finite 1]], [[Finite 0]]], files = []\<rparr>))))"
  by (simp add: synth_eval)

text \<open>
  Claim C6 at a concrete input. The model gives the image \<open>[[1]]\<close>; the array returned
  to the caller holds \<open>[[255]]\<close>, because the in-place rescaling acts on the array that
  \<open>TheoretImgs\<close> already refers to.
\<close>

theorem returned_images_are_rescaled:
  "model_image T2 (PyInt 0) [[Finite 1]] [[Finite 1]] [[Finite 0]] = Inr [[Finite 1]]
   \<and> theoret_MRI fs T2 [PyInt 0] [0] [1] [2]
        \<lparr>arrays3 = [], arrays2 = [[[Finite 1]], [[Finite 1]], [[Finite 0]]], files = []\<rparr>
     = (\<lparr>arrays3 = [],
         arrays2 = [[[Finite 1]], [[Finite 1]], [[Finite 0]], [[Finite 255]]],
         files = [(''Theoretical_MRI/slice_1_TE_0ms.png'', [[Finite 255]])]\<rparr>,
        Inr [3])"
  by (simp add: synth_eval)

text \<open>
  Claim C10. For maps whose synthesized image is zero, \<open>255.0/SI_image.max()\<close> is a
  division by zero; the call does not raise, and the image it returns and the image it
  saves hold \<open>nan\<close>.
\<close>

theorem zero_image_becomes_nan:
  "model_image T2 (PyInt 1) [[Finite 1]] [[Finite 0]] [[Finite 0]] = Inr [[Finite 0]]
   \<and> theoret_MRI fs T2 [PyInt 1] [0] [1] [2]
        \<lparr>arrays3 = [], arrays2 = [[[Finite 1]], [[Finite 0]], [[Finite 0]]], files = []\<rparr>
     = (\<lparr>arrays3 = [],
         arrays2 = [[[Finite 1]], [[Finite 0]], [[Finite 0]], [[NaN]]],
         files = [(''Theoretical_MRI/slice_1_TE_1ms.png'', [[NaN]])]\<rparr>,
        Inr [3])"
  by (simp add: synth_eval)

text \<open>
  Claim C9. Whatever they return or raise, \<open>calculate_maps\<close> and \<open>theoret_MRI\<close>
  leave every 3-D array of the store and every 2-D array that existed before the call
  unchanged: the image stack and the maps passed to them in particular.
\<close>

theorem stages_keep_their_inputs:
  "arrays3 (fst (calculate_maps cf images T_train fn s)) = arrays3 s
   \<and> take (length (arrays2 s)) (arrays2 (fst (calculate_maps cf images T_train fn s))) = arrays2 s
   \<and> arrays3 (fst (theoret_MRI fs fn T_wish T_maps Momaps Cmaps s)) = arrays3 s
   \<and> take (length (arrays2 s)) (arrays2 (fst (theoret_MRI fs fn T_wish T_maps Momaps Cmaps s)))
       = arrays2 s"
proof -
  have "kept s (fst (calculate_maps cf images T_train fn s))"
    by (rule calculate_maps_kept [of cf images T_train fn s _ "snd (calculate_maps cf images T_train fn s)"])
      simp
  moreover have "kept s (fst (theoret_MRI fs fn T_wish T_maps Momaps Cmaps s))"
    by (rule theoret_MRI_kept [of fs fn T_wish T_maps Momaps Cmaps s _
          "snd (theoret_MRI fs fn T_wish T_maps Momaps Cmaps s)"]) simp
  ultimately show ?thesis by (simp add: kept_def)
qed

end
